theory Spec2Isabelle
  imports Complex_Main "HOL-Library.Log_Nat"
begin

section \<open>Numbers in double precision\<close>

text \<open>
  The numbers of the engine are binary64 doubles. A double is handled as the real
  number it stands for; every result of \<open>*\<close> and \<open>+\<close> is the exact result rounded
  to the nearest double, to the even one of two that are equally near.

  \<open>round_even\<close> rounds to the nearest integer in this way.
\<close>

definition round_even :: "real \<Rightarrow> int" where
  "round_even y =
     (let f = \<lfloor>y\<rfloor>; d = y - of_int f
      in if d < 1 / 2 then f else if 1 / 2 < d then f + 1 else if even f then f else f + 1)"

text \<open>
  Every finite double is a whole number of steps of \<open>1 / 2 ^ 1074\<close>, the smallest
  positive double, and has at most 53 significant bits. \<open>round53\<close> rounds a
  non-negative amount of such steps to 53 significant bits: an amount of \<open>b\<close> bits
  before the point is rounded to a multiple of \<open>2 ^ (b - 53)\<close>, and an amount below
  \<open>2 ^ 53\<close> (the denormal range and a little more) to a whole number of steps.
\<close>

definition shift53 :: "real \<Rightarrow> nat" where
  "shift53 y = nat (bitlen \<lfloor>y\<rfloor> - 53)"

definition round53 :: "real \<Rightarrow> real" where
  "round53 y = of_int (round_even (y / 2 ^ shift53 y)) * 2 ^ shift53 y"

definition grid :: real where
  "grid = 2 ^ 1074"

text \<open>
  The double nearest to a real number. The numbers of this theory stay far below the
  largest double, so that overflow to infinity has no part in it.
\<close>

definition binary64 :: "real \<Rightarrow> real" where
  "binary64 x =
     (if x < 0 then - (round53 (- x * grid) / grid)
      else round53 (x * grid) / grid)"

definition is_double :: "real \<Rightarrow> bool" where
  "is_double x \<longleftrightarrow> binary64 x = x"

section \<open>Util: the test-data generators\<close>

text \<open>
  The class \<^verbatim>\<open>Util\<close> draws from \<^verbatim>\<open>Math.random()\<close>. A draw is a double of the
  interval from 0 (included) to 1 (excluded). The generator is stateful: \<open>draws\<close> is the
  sequence of values it is going to return and the state is the number of values already
  taken.
\<close>

type_synonym rng = "nat \<Rightarrow> real"

definition Math_random :: "rng \<Rightarrow> nat \<Rightarrow> real \<times> nat" where
  "Math_random draws st = (draws st, Suc st)"

subsection \<open>getRandomPhone\<close>

text \<open>
  \<^verbatim>\<open>return Math.floor(Math.random() * 99999999999 + 1)\<close>, with \<open>r\<close> the draw: the
  product is rounded to a double, and so is the sum; the floor of a double is exact.
\<close>

definition getRandomPhone :: "real \<Rightarrow> int" where
  "getRandomPhone r = \<lfloor>binary64 (binary64 (r * 99999999999) + 1)\<rfloor>"

subsection \<open>getRandonCode\<close>

definition letras :: string where
  "letras = ''0123456789ABCDEFGHIJKLMNOPQRSTUVWXTZabcdefghiklmnopqrstuvwxyz''"

text \<open>
  \<^verbatim>\<open>String.prototype.substring(a, b)\<close>: both indices are clamped to the string and
  swapped when they come in the wrong order.
\<close>

definition substring :: "string \<Rightarrow> int \<Rightarrow> int \<Rightarrow> string" where
  "substring s a b =
     (let n = int (length s);
          a' = max 0 (min a n);
          b' = max 0 (min b n)
      in take (nat (max a' b' - min a' b')) (drop (nat (min a' b')) s))"

text \<open>
  The body of the \<^verbatim>\<open>for (let i = 0; i < tamanho; i++)\<close> loop, one draw per round:
  \<^verbatim>\<open>rnum = Math.floor(Math.random() * letras.length)\<close>, the product rounded to a
  double, and \<^verbatim>\<open>aleatorio += letras.substring(rnum, rnum + 1)\<close>.
\<close>

function getRandonCode_loop :: "rng \<Rightarrow> nat \<Rightarrow> int \<Rightarrow> int \<Rightarrow> string \<Rightarrow> string \<times> nat" where
  "getRandonCode_loop draws st i tamanho aleatorio =
     (if i < tamanho then
        (let (r, st') = Math_random draws st;
             rnum = \<lfloor>binary64 (r * real (length letras))\<rfloor>
         in getRandonCode_loop draws st' (i + 1) tamanho
              (aleatorio @ substring letras rnum (rnum + 1)))
      else (aleatorio, st))"
  by pat_completeness auto
termination
  by (relation "measure (\<lambda>(draws, st, i, tamanho, aleatorio). nat (tamanho - i))")
     (auto simp: Math_random_def)

text \<open>
  \<^verbatim>\<open>getRandonCode(tamanho = 6)\<close>: the argument is \<open>None\<close> when the caller passes none,
  and the default applies. The result is the string and the state of the generator.
\<close>

definition getRandonCode :: "rng \<Rightarrow> nat \<Rightarrow> int option \<Rightarrow> string \<times> nat" where
  "getRandonCode draws st arg =
     (let tamanho = (case arg of None \<Rightarrow> 6 | Some n \<Rightarrow> n);
          aleatorio = ''''
      in getRandonCode_loop draws st 0 tamanho aleatorio)"

text \<open>
  The alphabet as the specification words it: the 62 characters \<open>0-9A-Za-z\<close> with the
  letter Y left out and the letter X written a second time in its place.
\<close>

definition claimed_letras :: string where
  "claimed_letras = ''0123456789ABCDEFGHIJKLMNOPQRSTUVWXXZabcdefghijklmnopqrstuvwxyz''"

text \<open>The 62 characters \<open>0-9A-Za-z\<close> themselves, to compare the literal with.\<close>

definition standard_alphabet :: string where
  "standard_alphabet = ''0123456789ABCDEFGHIJKLMNOPQRSTUVWXYZabcdefghijklmnopqrstuvwxyz''"

subsection \<open>getRandonPassword\<close>

text \<open>
  \<^verbatim>\<open>Number.prototype.toString(36)\<close> on a draw: \<^verbatim>\<open>"0"\<close> for zero, and otherwise
  \<^verbatim>\<open>"0."\<close> followed by digits of the fraction in base 36, lower case. The digits of
  the fraction come out one at a time, \<open>fraction * 36\<close> split into its integer part
  and the rest. An engine prints the shortest run of digits that tells the double from
  its neighbours, by an algorithm of its own. A double whose fraction ends within 10
  digits is printed in full by every engine, since \<open>36 ^ 10 < 2 ^ 53\<close> and no shorter
  numeral stands for the same double. What is printed for any other double is the
  engine's choice: \<open>engine\<close> is the rendering of the engine at hand.
\<close>

definition digit36 :: "nat \<Rightarrow> char" where
  "digit36 d = ''0123456789abcdefghijklmnopqrstuvwxyz'' ! d"

primrec fraction_digits36 :: "nat \<Rightarrow> real \<Rightarrow> string" where
  "fraction_digits36 0 fraction = []"
| "fraction_digits36 (Suc places) fraction =
     (if fraction = 0 then []
      else (let digit = \<lfloor>fraction * 36\<rfloor>
            in digit36 (nat digit) # fraction_digits36 places (fraction * 36 - of_int digit)))"

primrec fraction_ends :: "nat \<Rightarrow> real \<Rightarrow> bool" where
  "fraction_ends 0 fraction = (fraction = 0)"
| "fraction_ends (Suc places) fraction =
     (fraction = 0 \<or> fraction_ends places (fraction * 36 - of_int \<lfloor>fraction * 36\<rfloor>))"

definition Number_toString36 :: "(real \<Rightarrow> string) \<Rightarrow> real \<Rightarrow> string" where
  "Number_toString36 engine r =
     (if r = 0 then ''0''
      else if is_double r \<and> fraction_ends 10 r then ''0.'' @ fraction_digits36 10 r
      else engine r)"

text \<open>
  \<^verbatim>\<open>String.prototype.slice(start)\<close>: a negative start counts from the end of the
  string and stops at its beginning; the slice runs to the end of the string.
\<close>

definition slice :: "string \<Rightarrow> int \<Rightarrow> string" where
  "slice s start =
     (let n = int (length s);
          from = (if start < 0 then max (n + start) 0 else min start n)
      in drop (nat from) s)"

text \<open>\<^verbatim>\<open>return Math.random().toString(36).slice(-7)\<close>, with \<open>r\<close> the draw.\<close>

definition getRandonPassword :: "(real \<Rightarrow> string) \<Rightarrow> real \<Rightarrow> string" where
  "getRandonPassword engine r = slice (Number_toString36 engine r) (- 7)"

subsection \<open>screenshot\<close>

text \<open>
  The clock reading \<^verbatim>\<open>new Date()\<close>, as the six getters the method calls return it.
\<close>

record Date =
  getDate :: int
  getMonth :: int
  getFullYear :: int
  getHours :: int
  getMinutes :: int
  getSeconds :: int

text \<open>
  The ranges of the getters: day of the month from 1, month from 0, 24 hours, 60
  minutes, 60 seconds. The year of a \<^verbatim>\<open>Date\<close> is any year from -271821 to 275760.
\<close>

definition valid_Date :: "Date \<Rightarrow> bool" where
  "valid_Date t \<longleftrightarrow>
     1 \<le> getDate t \<and> getDate t \<le> 31 \<and>
     0 \<le> getMonth t \<and> getMonth t \<le> 11 \<and>
     - 271821 \<le> getFullYear t \<and> getFullYear t \<le> 275760 \<and>
     0 \<le> getHours t \<and> getHours t \<le> 23 \<and>
     0 \<le> getMinutes t \<and> getMinutes t \<le> 59 \<and>
     0 \<le> getSeconds t \<and> getSeconds t \<le> 59"

definition digit10 :: "nat \<Rightarrow> char" where
  "digit10 d = ''0123456789'' ! d"

fun decimal :: "nat \<Rightarrow> string" where
  "decimal n = (if n < 10 then [digit10 n] else decimal (n div 10) @ [digit10 (n mod 10)])"

text \<open>\<^verbatim>\<open>String(n)\<close> of an integer, which a template literal applies as well.\<close>

definition String_of :: "int \<Rightarrow> string" where
  "String_of n = (if n < 0 then CHR ''-'' # decimal (nat (- n)) else decimal (nat n))"

text \<open>\<^verbatim>\<open>padStart(n, c)\<close> with a filler of one character.\<close>

definition padStart :: "string \<Rightarrow> nat \<Rightarrow> char \<Rightarrow> string" where
  "padStart s n c = (if length s < n then replicate (n - length s) c @ s else s)"

text \<open>
  The method builds \<^verbatim>\<open>dateTimeCurrent\<close> and hands it to \<^verbatim>\<open>cy.screenshot\<close>; the
  model returns that file name.
\<close>

definition screenshot :: "Date \<Rightarrow> string" where
  "screenshot dateFull =
     (let d = padStart (String_of (getDate dateFull)) 2 (CHR ''0'');
          month = padStart (String_of (getMonth dateFull + 1)) 2 (CHR ''0'');
          y = getFullYear dateFull;
          hh = padStart (String_of (getHours dateFull)) 2 (CHR ''0'');
          mm = padStart (String_of (getMinutes dateFull)) 2 (CHR ''0'');
          ss = padStart (String_of (getSeconds dateFull)) 2 (CHR ''0'')
      in String_of y @ ''-'' @ month @ ''-'' @ d @ ''_'' @ hh @ ''-'' @ mm @ ''-'' @ ss)"

text \<open>
  The shape \<^verbatim>\<open>YYYY-MM-DD_HH-mm-ss\<close>: with every decimal digit replaced by 9, the
  string reads \<^verbatim>\<open>9999-99-99_99-99-99\<close>.
\<close>

definition is_digit :: "char \<Rightarrow> bool" where
  "is_digit c \<longleftrightarrow> c \<in> set ''0123456789''"

definition timestamp_shape :: "string \<Rightarrow> bool" where
  "timestamp_shape s \<longleftrightarrow>
     map (\<lambda>c. if is_digit c then CHR ''9'' else c) s = ''9999-99-99_99-99-99''"

section \<open>PollingAssertion: the retry behind every assertion\<close>

text \<open>
  Modelled from the spec: the result of a PollingAssertion (section 4.1), the retry of
  the browser-automation runtime behind every \<^verbatim>\<open>should(...)\<close> of the page objects; the
  runtime is not part of the repository. Success carries the matched result; the failure
  \<open>TimeoutExceeded\<close> carries the last observed state and the description of the
  predicate.
\<close>

datatype 'a outcome = Success 'a | TimeoutExceeded "'a option" string


text \<open>
  Modelled from the spec: the loop of a PollingAssertion (section 4.1), which the
  repository relies on and does not implement. It runs the query again, evaluates the
  predicate and returns success when it holds; when it does not hold, the check fails
  with \<open>TimeoutExceeded\<close> if the elapsed time exceeds the timeout, and otherwise sleeps
  one interval and tries again. Time is counted in milliseconds from the start; \<open>query\<close>
  gives the result of the query at each time. The result comes with the time at which
  the loop returns; a loop that never returns has the value \<open>None\<close>.
\<close>

partial_function (option) PollingAssertion ::
  "(nat \<Rightarrow> 'a option) \<Rightarrow> ('a \<Rightarrow> bool) \<Rightarrow> string \<Rightarrow> nat \<Rightarrow> nat \<Rightarrow> nat \<Rightarrow> ('a outcome \<times> nat) option" where
  "PollingAssertion query predicate description timeout interval elapsed =
     (case query elapsed of
        None \<Rightarrow>
          (if timeout < elapsed then Some (TimeoutExceeded None description, elapsed)
           else PollingAssertion query predicate description timeout interval (elapsed + interval))
      | Some found \<Rightarrow>
          (if predicate found then Some (Success found, elapsed)
           else if timeout < elapsed then Some (TimeoutExceeded (Some found) description, elapsed)
           else PollingAssertion query predicate description timeout interval (elapsed + interval)))"

section \<open>BookStorePage: the page object\<close>

text \<open>
  The page is the document as it stands while the method runs: the elements
  \<^verbatim>\<open>cy.contains\<close> may pick, in the order in which it prefers them, each with its text
  and with whether Cypress sees it as visible.
\<close>

record element =
  content :: string
  visible :: bool

type_synonym page = "element list"

text \<open>
  What \<^verbatim>\<open>cy.contains\<close> is asked to find: a text, the expression
  \<^verbatim>\<open>/ISBN\b|ISBN:/i\<close> or the expression \<^verbatim>\<open>/\d{10,13}/\<close>.
\<close>

datatype pattern = Text string | ISBN_label | Digits_10_13

definition is_word :: "char \<Rightarrow> bool" where
  "is_word c \<longleftrightarrow>
     c \<in> set ''0123456789ABCDEFGHIJKLMNOPQRSTUVWXYZ_abcdefghijklmnopqrstuvwxyz''"

fun starts_with :: "string \<Rightarrow> string \<Rightarrow> bool" where
  "starts_with [] s = True"
| "starts_with (p # ps) [] = False"
| "starts_with (p # ps) (c # cs) = (p = c \<and> starts_with ps cs)"

text \<open>Neither expression is anchored: a match may start at any position.\<close>

fun anywhere :: "(string \<Rightarrow> bool) \<Rightarrow> string \<Rightarrow> bool" where
  "anywhere P [] = P []"
| "anywhere P (c # cs) = (P (c # cs) \<or> anywhere P cs)"

text \<open>
  \<^verbatim>\<open>\b\<close> after the letter N: the text ends there or goes on with a character that
  is not a word character.
\<close>

fun word_boundary :: "string \<Rightarrow> bool" where
  "word_boundary [] = True"
| "word_boundary (c # cs) = (\<not> is_word c)"

text \<open>\<^verbatim>\<open>ISBN\b|ISBN:\<close> at the start of the text, the letters in either case.\<close>

fun isbn_here :: "string \<Rightarrow> bool" where
  "isbn_here (i # s # b # n # rest) =
     (i \<in> set ''Ii'' \<and> s \<in> set ''Ss'' \<and> b \<in> set ''Bb'' \<and> n \<in> set ''Nn'' \<and>
      (word_boundary rest \<or> starts_with '':'' rest))"
| "isbn_here _ = False"

text \<open>\<^verbatim>\<open>\d{10,13}\<close> at the start of the text: ten digits in a row are enough.\<close>

definition digits_here :: "string \<Rightarrow> bool" where
  "digits_here s \<longleftrightarrow> 10 \<le> length (takeWhile is_digit s)"

fun matches :: "pattern \<Rightarrow> string \<Rightarrow> bool" where
  "matches (Text t) s = anywhere (starts_with t) s"
| "matches ISBN_label s = anywhere isbn_here s"
| "matches Digits_10_13 s = anywhere digits_here s"

text \<open>
  A run of Cypress commands leaves the list of the commands it has run and ends with
  the subject it yields or with the error that fails the test. The time limit of a
  command is \<open>None\<close> where the call passes none and the configured default applies.
\<close>

datatype error =
  Empty_string
| Not_found pattern "nat option"
| Not_visible "element list"

datatype command =
  Contains pattern "nat option"
| Should_be_visible
| Wrap

type_synonym run = "command list \<times> (error + element list)"

text \<open>
  \<^verbatim>\<open>cy.contains(content, options)\<close> yields one element, the first with the content.
  Like every Cypress query of the document it asserts that the element exists: while
  no element has the content it tries again, and at the end of its time limit it fails
  the test (\<^verbatim>\<open>Expected to find content ... but never did\<close>). A command chained to
  it runs only once the element is found, and so does the callback of \<^verbatim>\<open>then\<close>,
  which is no assertion and does not lift the one on existence. An empty text is refused
  at once.
\<close>

definition cy_contains :: "page \<Rightarrow> pattern \<Rightarrow> nat option \<Rightarrow> run" where
  "cy_contains pg pat timeout =
     ([Contains pat timeout],
      if pat = Text [] then Inl Empty_string
      else (case filter (\<lambda>e. matches pat (content e)) pg of
              [] \<Rightarrow> Inl (Not_found pat timeout)
            | e # es \<Rightarrow> Inr [e]))"

text \<open>\<^verbatim>\<open>.should('be.visible')\<close> on the subject of the chain.\<close>

definition should_be_visible :: "element list \<Rightarrow> run" where
  "should_be_visible subject =
     ([Should_be_visible],
      if list_ex visible subject then Inr subject else Inl (Not_visible subject))"

definition cy_wrap :: "element list \<Rightarrow> run" where
  "cy_wrap subject = ([Wrap], Inr subject)"

text \<open>
  Chaining: the next command receives the subject; after an error nothing more runs.
  \<^verbatim>\<open>.then(callback)\<close> is this chaining, the callback's commands taking the place of
  the next command.
\<close>

definition chain :: "run \<Rightarrow> (element list \<Rightarrow> run) \<Rightarrow> run" where
  "chain m f =
     (case m of
        (cmds, Inl e) \<Rightarrow> (cmds, Inl e)
      | (cmds, Inr subject) \<Rightarrow> (case f subject of (cmds', r) \<Rightarrow> (cmds @ cmds', r)))"

text \<open>
  The callback of \<^verbatim>\<open>validateDetailBook\<close>:
  \<^verbatim>\<open>($el) => { if ($el.length) { cy.wrap($el).should('be.visible') }
  else { cy.contains(/\d{10,13}/).should('be.visible') } }\<close>
\<close>

definition isbn_callback :: "page \<Rightarrow> element list \<Rightarrow> run" where
  "isbn_callback pg el =
     (if length el \<noteq> 0 then chain (cy_wrap el) should_be_visible
      else chain (cy_contains pg Digits_10_13 None) should_be_visible)"

definition validateDetailBook :: "page \<Rightarrow> string \<Rightarrow> run" where
  "validateDetailBook pg title =
     chain (chain (cy_contains pg (Text title) (Some 10000)) should_be_visible) (\<lambda>_.
     chain (chain (cy_contains pg (Text ''Author'') None) should_be_visible) (\<lambda>_.
     chain (cy_contains pg ISBN_label None) (isbn_callback pg)))"

text \<open>A run passes when it ends with a subject, and fails when it ends with an error.\<close>

definition passes :: "run \<Rightarrow> bool" where
  "passes m = (case snd m of Inl e \<Rightarrow> False | Inr subject \<Rightarrow> True)"

text \<open>An element with the content of the pattern is on the page.\<close>

definition on_page :: "page \<Rightarrow> pattern \<Rightarrow> bool" where
  "on_page pg pat = list_ex (\<lambda>e. matches pat (content e)) pg"

text \<open>
  Pages of the book store. The first two show a book with its title, its author and
  its number, 12 and 13 digits long, and no ISBN label; the third has neither label nor
  number.
\<close>

definition harry_potter_page :: page where
  "harry_potter_page =
     [\<lparr>content = ''Harry Potter'', visible = True\<rparr>,
      \<lparr>content = ''Author : J. K. Rowling'', visible = True\<rparr>,
      \<lparr>content = ''978144932586'', visible = True\<rparr>]"

definition git_pocket_guide_page :: page where
  "git_pocket_guide_page =
     [\<lparr>content = ''Git Pocket Guide'', visible = True\<rparr>,
      \<lparr>content = ''Author : Richard E. Silverman'', visible = True\<rparr>,
      \<lparr>content = ''Publisher : O Reilly Media'', visible = True\<rparr>,
      \<lparr>content = ''9781449325862'', visible = True\<rparr>]"

definition bare_page :: page where
  "bare_page =
     [\<lparr>content = ''Git Pocket Guide'', visible = True\<rparr>,
      \<lparr>content = ''Author : Richard E. Silverman'', visible = True\<rparr>,
      \<lparr>content = ''Pages : 234'', visible = True\<rparr>]"

text \<open>A page that shows the number under its label.\<close>

definition labelled_page :: page where
  "labelled_page =
     [\<lparr>content = ''Git Pocket Guide'', visible = True\<rparr>,
      \<lparr>content = ''ISBN : 9781449325862'', visible = True\<rparr>,
      \<lparr>content = ''Author : Richard E. Silverman'', visible = True\<rparr>]"

section \<open>Properties of rounding\<close>

text \<open>
  Rounding to the nearest integer stays between the two integers around the number, is
  monotone, and goes down below the middle and up above it.
\<close>

lemma round_even_floor: "\<lfloor>z\<rfloor> \<le> round_even z \<and> round_even z \<le> \<lfloor>z\<rfloor> + 1"
  by (simp add: round_even_def Let_def)

lemma round_even_ge:
  assumes "of_int K \<le> z"
  shows "K \<le> round_even z"
proof -
  have "K \<le> \<lfloor>z\<rfloor>" using assms by (simp add: le_floor_iff)
  then show ?thesis using round_even_floor [of z] by linarith
qed

lemma round_even_lt_half:
  assumes "z < of_int K + 1 / 2"
  shows "round_even z \<le> K"
proof (cases "\<lfloor>z\<rfloor> < K")
  case True
  then show ?thesis using round_even_floor [of z] by linarith
next
  case False
  have "z < of_int (K + 1)" using assms by simp
  then have "\<lfloor>z\<rfloor> < K + 1" by (simp only: floor_less_iff)
  with False have f: "\<lfloor>z\<rfloor> = K" by simp
  then have "z - of_int \<lfloor>z\<rfloor> < 1 / 2" using assms by simp
  then show ?thesis using f by (simp add: round_even_def Let_def)
qed

lemma round_even_le:
  assumes "z \<le> of_int K"
  shows "round_even z \<le> K"
  using assms by (intro round_even_lt_half) simp

lemma round_even_gt_half:
  assumes "of_int K - 1 / 2 < z"
  shows "K \<le> round_even z"
proof (cases "K \<le> \<lfloor>z\<rfloor>")
  case True
  then show ?thesis using round_even_floor [of z] by linarith
next
  case False
  have "of_int (K - 1) \<le> z" using assms by simp
  then have "K - 1 \<le> \<lfloor>z\<rfloor>" by (simp only: le_floor_iff)
  with False have f: "\<lfloor>z\<rfloor> = K - 1" by simp
  then have "1 / 2 < z - of_int \<lfloor>z\<rfloor>" using assms by simp
  then show ?thesis using f by (simp add: round_even_def Let_def)
qed

lemma round_even_mono:
  assumes "z1 \<le> z2"
  shows "round_even z1 \<le> round_even z2"
proof (cases "\<lfloor>z1\<rfloor> < \<lfloor>z2\<rfloor>")
  case True
  then show ?thesis using round_even_floor [of z1] round_even_floor [of z2] by linarith
next
  case False
  moreover have "\<lfloor>z1\<rfloor> \<le> \<lfloor>z2\<rfloor>" using assms by (rule floor_mono)
  ultimately have f: "\<lfloor>z1\<rfloor> = \<lfloor>z2\<rfloor>" by simp
  then have "z1 - of_int \<lfloor>z1\<rfloor> \<le> z2 - of_int \<lfloor>z2\<rfloor>" using assms by simp
  then show ?thesis using f by (simp add: round_even_def Let_def)
qed

text \<open>
  An amount between \<open>2 ^ (52 + t)\<close> and \<open>2 ^ (53 + t)\<close> is rounded to a multiple of
  \<open>2 ^ t\<close>. Rounding to 53 bits keeps a multiple \<open>M * 2 ^ t\<close> with \<open>M < 2 ^ 53\<close>, is
  monotone, and moves an amount less than half a step away from such a multiple onto it.
\<close>

lemma shift53_le:
  assumes "y < 2 ^ (53 + t)"
  shows "shift53 y \<le> t"
proof -
  have "y < of_int (2 ^ (53 + t))" using assms by simp
  then have "\<lfloor>y\<rfloor> < 2 ^ (53 + t)" by (simp only: floor_less_iff)
  then have "bitlen \<lfloor>y\<rfloor> \<le> int (53 + t)"
    unfolding bitlen_le_iff_power nat_int by simp
  then show ?thesis by (simp add: shift53_def)
qed

lemma shift53_ge:
  assumes "2 ^ (52 + t) \<le> y"
  shows "t \<le> shift53 y"
proof -
  have "of_int (2 ^ (52 + t)) \<le> y" using assms by simp
  then have "2 ^ (52 + t) \<le> \<lfloor>y\<rfloor>" by (simp only: le_floor_iff)
  then have "int (53 + t) \<le> bitlen \<lfloor>y\<rfloor>"
    unfolding bitlen_ge_iff_power nat_int by simp
  then show ?thesis by (simp add: shift53_def)
qed

lemma shift53_eq:
  assumes "2 ^ (52 + t) \<le> y" and "y < 2 ^ (53 + t)"
  shows "shift53 y = t"
  using shift53_le [OF assms(2)] shift53_ge [OF assms(1)] by simp

lemma below_shift53: "y < 2 ^ (53 + shift53 y)"
proof -
  have "bitlen \<lfloor>y\<rfloor> \<le> int (53 + shift53 y)"
    by (simp add: shift53_def)
  then have "\<lfloor>y\<rfloor> < 2 ^ (53 + shift53 y)"
    unfolding bitlen_le_iff_power nat_int by simp
  then have "y < of_int (2 ^ (53 + shift53 y))" by (simp only: floor_less_iff)
  then show ?thesis by simp
qed

lemma above_shift53:
  assumes "0 < shift53 y"
  shows "2 ^ (52 + shift53 y) \<le> y"
proof -
  have "int (53 + shift53 y) \<le> bitlen \<lfloor>y\<rfloor>"
    using assms by (simp add: shift53_def)
  then have "2 ^ (52 + shift53 y) \<le> \<lfloor>y\<rfloor>"
    unfolding bitlen_ge_iff_power nat_int by simp
  then have "of_int (2 ^ (52 + shift53 y)) \<le> y" by (simp only: le_floor_iff)
  then show ?thesis by simp
qed

lemma round53_le:
  assumes "shift53 y \<le> t" and "y \<le> of_int M * 2 ^ t"
  shows "round53 y \<le> of_int M * 2 ^ t"
proof -
  let ?s = "shift53 y"
  have p: "(2::real) ^ t = 2 ^ (t - ?s) * 2 ^ ?s"
    using assms(1) by (simp add: power_add [symmetric])
  have "y / 2 ^ ?s \<le> of_int (M * 2 ^ (t - ?s))"
    using assms(2) by (simp add: p pos_divide_le_eq)
  then have "round_even (y / 2 ^ ?s) \<le> M * 2 ^ (t - ?s)" by (rule round_even_le)
  then have "of_int (round_even (y / 2 ^ ?s)) \<le> (of_int (M * 2 ^ (t - ?s)) :: real)"
    by (simp only: of_int_le_iff)
  then have "of_int (round_even (y / 2 ^ ?s)) * 2 ^ ?s \<le> (of_int (M * 2 ^ (t - ?s)) :: real) * 2 ^ ?s"
    by (simp only: mult_le_cancel_right) simp
  then show ?thesis by (simp add: round53_def p)
qed

lemma round53_ge:
  assumes "shift53 y \<le> t" and "of_int M * 2 ^ t \<le> y"
  shows "of_int M * 2 ^ t \<le> round53 y"
proof -
  let ?s = "shift53 y"
  have p: "(2::real) ^ t = 2 ^ (t - ?s) * 2 ^ ?s"
    using assms(1) by (simp add: power_add [symmetric])
  have "of_int (M * 2 ^ (t - ?s)) \<le> y / 2 ^ ?s"
    using assms(2) by (simp add: p pos_le_divide_eq)
  then have "M * 2 ^ (t - ?s) \<le> round_even (y / 2 ^ ?s)" by (rule round_even_ge)
  then have "(of_int (M * 2 ^ (t - ?s)) :: real) \<le> of_int (round_even (y / 2 ^ ?s))"
    by (simp only: of_int_le_iff)
  then have "(of_int (M * 2 ^ (t - ?s)) :: real) * 2 ^ ?s \<le> of_int (round_even (y / 2 ^ ?s)) * 2 ^ ?s"
    by (simp only: mult_le_cancel_right) simp
  then show ?thesis by (simp add: round53_def p)
qed

lemma round53_fix:
  assumes "0 \<le> M" and "M < 2 ^ 53"
  shows "round53 (of_int M * 2 ^ t) = of_int M * 2 ^ t"
proof -
  have "(of_int M :: real) < of_int (2 ^ 53)" using assms(2) by (simp only: of_int_less_iff)
  then have "(of_int M :: real) < 2 ^ 53" by simp
  then have "of_int M * 2 ^ t < (2::real) ^ 53 * 2 ^ t" by simp
  then have "of_int M * 2 ^ t < (2::real) ^ (53 + t)" by (simp add: power_add)
  then have s: "shift53 (of_int M * 2 ^ t) \<le> t" by (rule shift53_le)
  show ?thesis
    using round53_le [OF s, of M] round53_ge [OF s, of M] by simp
qed

lemma round53_nonneg:
  assumes "0 \<le> y"
  shows "0 \<le> round53 y"
  using round53_ge [of y "shift53 y" 0] assms by simp

lemma round53_mono:
  assumes "y1 \<le> y2"
  shows "round53 y1 \<le> round53 y2"
proof -
  have "shift53 y1 \<le> shift53 y2"
    using below_shift53 [of y2] assms by (intro shift53_le) simp
  then consider (same) "shift53 y1 = shift53 y2" | (less) "shift53 y1 < shift53 y2"
    by linarith
  then show ?thesis
  proof cases
    case same
    have "y1 / 2 ^ shift53 y1 \<le> y2 / 2 ^ shift53 y1"
      using assms by (simp add: divide_right_mono)
    then have "round_even (y1 / 2 ^ shift53 y1) \<le> round_even (y2 / 2 ^ shift53 y1)"
      by (rule round_even_mono)
    then have "(of_int (round_even (y1 / 2 ^ shift53 y1)) :: real) \<le> of_int (round_even (y2 / 2 ^ shift53 y1))"
      by (simp only: of_int_le_iff)
    then show ?thesis
      unfolding round53_def same [symmetric] by (simp only: mult_le_cancel_right) simp
  next
    case less
    have "y1 \<le> of_int (2 ^ 53) * 2 ^ shift53 y1"
      using below_shift53 [of y1] by (simp add: power_add)
    then have "round53 y1 \<le> of_int (2 ^ 53) * 2 ^ shift53 y1"
      by (intro round53_le) simp_all
    then have a: "round53 y1 \<le> 2 ^ (53 + shift53 y1)" by (simp add: power_add)
    have "of_int (2 ^ 52) * 2 ^ shift53 y2 \<le> y2"
      using above_shift53 [of y2] less by (simp add: power_add)
    then have "of_int (2 ^ 52) * 2 ^ shift53 y2 \<le> round53 y2"
      by (intro round53_ge) simp_all
    then have b: "2 ^ (52 + shift53 y2) \<le> round53 y2" by (simp add: power_add)
    have "(2::real) ^ (53 + shift53 y1) \<le> 2 ^ (52 + shift53 y2)"
      using less by (intro power_increasing) simp_all
    with a b show ?thesis by linarith
  qed
qed

lemma round53_down:
  assumes "2 ^ 52 \<le> M" and "M < 2 ^ 53"
    and "of_int M * 2 ^ t \<le> y" and "y < of_int M * 2 ^ t + 2 ^ t / 2"
  shows "round53 y = of_int M * 2 ^ t"
proof -
  have "(of_int (2 ^ 52) :: real) \<le> of_int M" using assms(1) by (simp only: of_int_le_iff)
  then have m1: "(2::real) ^ 52 \<le> of_int M" by simp
  have "M + 1 \<le> 2 ^ 53" using assms(2) by simp
  then have "(of_int (M + 1) :: real) \<le> of_int (2 ^ 53)" by (simp only: of_int_le_iff)
  then have m2: "(of_int M :: real) + 1 \<le> 2 ^ 53" by simp
  have pos: "0 < (2::real) ^ t" by simp
  have "(2::real) ^ 52 * 2 ^ t \<le> of_int M * 2 ^ t"
    using m1 by (intro mult_right_mono) simp_all
  then have lo: "(2::real) ^ (52 + t) \<le> y"
    using assms(3) unfolding power_add by linarith
  have "(of_int M + 1) * 2 ^ t \<le> (2::real) ^ 53 * 2 ^ t"
    using m2 by (intro mult_right_mono) simp_all
  moreover have "(of_int M + 1) * 2 ^ t = of_int M * 2 ^ t + (2::real) ^ t"
    by (simp add: algebra_simps)
  moreover have "(2::real) ^ t / 2 < 2 ^ t" by simp
  moreover note assms(4)
  ultimately have hi: "y < 2 ^ (53 + t)"
    unfolding power_add by linarith
  have s: "shift53 y = t" using lo hi by (rule shift53_eq)
  have "of_int M \<le> y / 2 ^ t" using assms(3) by (simp add: pos_le_divide_eq)
  then have g: "M \<le> round_even (y / 2 ^ t)" by (rule round_even_ge)
  have "y / 2 ^ t < of_int M + 1 / 2" using assms(4) by (simp add: pos_divide_less_eq algebra_simps)
  then have "round_even (y / 2 ^ t) \<le> M" by (rule round_even_lt_half)
  with g have "round_even (y / 2 ^ t) = M" by simp
  then show ?thesis by (simp add: round53_def s)
qed

lemma round53_up:
  assumes "2 ^ 52 < M" and "M \<le> 2 ^ 53"
    and "of_int M * 2 ^ t - 2 ^ t / 2 < y" and "y \<le> of_int M * 2 ^ t"
  shows "round53 y = of_int M * 2 ^ t"
proof (cases "y = of_int M * 2 ^ t")
  case True
  show ?thesis
  proof (cases "M = 2 ^ 53")
    case True
    have "round53 (of_int (2 ^ 52) * 2 ^ Suc t) = of_int (2 ^ 52) * 2 ^ Suc t"
      by (rule round53_fix) simp_all
    then show ?thesis using \<open>y = of_int M * 2 ^ t\<close> True by simp
  next
    case False
    then have "M < 2 ^ 53" using assms(2) by simp
    then show ?thesis using round53_fix [of M t] assms(1) True by simp
  qed
next
  case False
  then have lt: "y < of_int M * 2 ^ t" using assms(4) by simp
  have "2 ^ 52 \<le> M - 1" using assms(1) by simp
  then have "(of_int (2 ^ 52) :: real) \<le> of_int (M - 1)" by (simp only: of_int_le_iff)
  then have m1: "(2::real) ^ 52 \<le> of_int M - 1" by simp
  have "(of_int M :: real) \<le> of_int (2 ^ 53)" using assms(2) by (simp only: of_int_le_iff)
  then have m2: "(of_int M :: real) \<le> 2 ^ 53" by simp
  have pos: "0 < (2::real) ^ t" by simp
  have "(2::real) ^ 52 * 2 ^ t \<le> (of_int M - 1) * 2 ^ t"
    using m1 by (intro mult_right_mono) simp_all
  moreover have "(of_int M - 1) * 2 ^ t = of_int M * 2 ^ t - (2::real) ^ t"
    by (simp add: algebra_simps)
  moreover have "(2::real) ^ t / 2 < 2 ^ t" by simp
  moreover note assms(3)
  ultimately have lo: "(2::real) ^ (52 + t) \<le> y"
    unfolding power_add by linarith
  have "of_int M * 2 ^ t \<le> (2::real) ^ 53 * 2 ^ t"
    using m2 by (intro mult_right_mono) simp_all
  with lt have hi: "y < 2 ^ (53 + t)"
    unfolding power_add by linarith
  have s: "shift53 y = t" using lo hi by (rule shift53_eq)
  have "(of_int M * 2 ^ t - 2 ^ t / 2) / 2 ^ t < y / 2 ^ t"
    using assms(3) by (simp only: divide_strict_right_mono zero_less_power zero_less_numeral)
  moreover have "(of_int M * 2 ^ t - 2 ^ t / 2) / 2 ^ t = (of_int M :: real) - 1 / 2"
    by (simp add: field_simps)
  ultimately have "of_int M - 1 / 2 < y / 2 ^ t" by simp
  then have g: "M \<le> round_even (y / 2 ^ t)" by (rule round_even_gt_half)
  have "y / 2 ^ t \<le> of_int M" using assms(4) by (simp add: pos_divide_le_eq)
  then have "round_even (y / 2 ^ t) \<le> M" by (rule round_even_le)
  with g have "round_even (y / 2 ^ t) = M" by simp
  then show ?thesis by (simp add: round53_def s)
qed

lemma round53_less:
  assumes "y < 2 ^ (53 + t)" and "t \<le> u" and "y < of_int K * 2 ^ u - 2 ^ t / 2"
  shows "round53 y < of_int K * 2 ^ u"
proof -
  let ?s = "shift53 y"
  have s: "?s \<le> t" using assms(1) by (rule shift53_le)
  then have su: "?s \<le> u" using assms(2) by simp
  have p: "(2::real) ^ u = 2 ^ (u - ?s) * 2 ^ ?s"
    using su by (simp add: power_add [symmetric])
  have "(2::real) ^ ?s \<le> 2 ^ t" using s by (intro power_increasing) simp_all
  then have "y < of_int K * 2 ^ u - 2 ^ ?s / 2" using assms(3) by linarith
  then have "y / 2 ^ ?s < (of_int K * 2 ^ u - 2 ^ ?s / 2) / 2 ^ ?s"
    by (simp only: divide_strict_right_mono zero_less_power zero_less_numeral)
  also have "\<dots> = of_int (K * 2 ^ (u - ?s) - 1) + 1 / 2"
    by (simp add: p field_simps)
  finally have "y / 2 ^ ?s < of_int (K * 2 ^ (u - ?s) - 1) + 1 / 2" .
  then have "round_even (y / 2 ^ ?s) \<le> K * 2 ^ (u - ?s) - 1" by (rule round_even_lt_half)
  then have "(of_int (round_even (y / 2 ^ ?s)) :: real) \<le> of_int (K * 2 ^ (u - ?s) - 1)"
    by (simp only: of_int_le_iff)
  then have "of_int (round_even (y / 2 ^ ?s)) * 2 ^ ?s \<le> (of_int (K * 2 ^ (u - ?s) - 1) :: real) * 2 ^ ?s"
    by (simp only: mult_le_cancel_right) simp
  also have "\<dots> < of_int K * 2 ^ u" by (simp add: p algebra_simps)
  finally show ?thesis by (simp add: round53_def)
qed

text \<open>
  The same for doubles: rounding is monotone and keeps the doubles; no double below 1 is
  above \<open>1 - 1 / 2 ^ 53\<close>. From this, the two products of the generators: a draw times
  99999999999 rounds to at most \<open>99999999999 - 1 / 2 ^ 16\<close>, and a draw times 61 to
  less than 61.
\<close>

lemma grid_pos: "0 < grid"
  by (simp add: grid_def)

lemma binary64_nonneg_eq:
  assumes "0 \<le> x"
  shows "binary64 x = round53 (x * grid) / grid"
  using assms by (simp add: binary64_def)

lemma binary64_mono:
  assumes "0 \<le> x" and "x \<le> y"
  shows "binary64 x \<le> binary64 y"
proof -
  have "x * grid \<le> y * grid" using assms(2) grid_pos by simp
  then have "round53 (x * grid) \<le> round53 (y * grid)" by (rule round53_mono)
  then have "round53 (x * grid) / grid \<le> round53 (y * grid) / grid"
    using grid_pos by (simp add: divide_right_mono)
  then show ?thesis using assms by (simp only: binary64_nonneg_eq)
qed

lemma binary64_nonneg:
  assumes "0 \<le> x"
  shows "0 \<le> binary64 x"
proof -
  have "0 \<le> x * grid" using assms grid_pos by simp
  then have "0 \<le> round53 (x * grid)" by (rule round53_nonneg)
  then show ?thesis using assms grid_pos by (simp only: binary64_nonneg_eq) simp
qed

lemma binary64_fix:
  assumes "0 \<le> M" and "M < 2 ^ 53"
  shows "binary64 (of_int M * 2 ^ t / grid) = of_int M * 2 ^ t / grid"
proof -
  have "(0::real) \<le> of_int M * 2 ^ t / grid" using assms(1) grid_pos by simp
  then have "binary64 (of_int M * 2 ^ t / grid)
      = round53 (of_int M * 2 ^ t / grid * grid) / grid"
    by (rule binary64_nonneg_eq)
  also have "of_int M * 2 ^ t / grid * grid = (of_int M * 2 ^ t :: real)"
    using grid_pos by simp
  also have "round53 (of_int M * 2 ^ t) = of_int M * 2 ^ t"
    using assms by (rule round53_fix)
  finally show ?thesis .
qed

lemma binary64_of_int:
  assumes "0 \<le> K" and "K < 2 ^ 53"
  shows "binary64 (of_int K) = of_int K"
  using binary64_fix [OF assms, of 1074] by (simp add: grid_def)

lemma is_double_half: "is_double (1 / 2)"
proof -
  have "binary64 (of_int 1 * 2 ^ 1073 / grid) = of_int 1 * 2 ^ 1073 / grid"
    by (rule binary64_fix) simp_all
  moreover have "of_int 1 * 2 ^ 1073 / grid = (1 / 2 :: real)" by (simp add: grid_def)
  ultimately have "binary64 (1 / 2) = 1 / 2" by (simp only:)
  then show ?thesis by (simp only: is_double_def)
qed

lemma double_below_one:
  assumes "is_double r" and "0 \<le> r" and "r < 1"
  shows "r \<le> 1 - 1 / 2 ^ 53"
proof (rule ccontr)
  assume "\<not> r \<le> 1 - 1 / 2 ^ 53"
  then have gt: "1 - 1 / 2 ^ 53 < r" by simp
  let ?y = "r * grid"
  let ?j = "round_even (?y / 2 ^ 1021)"
  have "(1 - 1 / 2 ^ 53) * grid < ?y" using gt grid_pos by (rule mult_strict_right_mono)
  moreover have "(1 - 1 / 2 ^ 53) * grid = (2 ^ 53 - 1) * 2 ^ 1021" by (simp add: grid_def)
  ultimately have lo': "(2 ^ 53 - 1) * 2 ^ 1021 < ?y" by (simp only:)
  have "?y < 1 * grid" using assms(3) grid_pos by (rule mult_strict_right_mono)
  moreover have "1 * grid = 2 ^ 53 * 2 ^ 1021" by (simp add: grid_def)
  ultimately have hi': "?y < 2 ^ 53 * 2 ^ 1021" by (simp only:)
  have "(2::real) ^ (52 + 1021) \<le> (2 ^ 53 - 1) * 2 ^ 1021" by simp
  then have lo: "(2::real) ^ (52 + 1021) \<le> ?y" using lo' by linarith
  have "(2::real) ^ 53 * 2 ^ 1021 = 2 ^ (53 + 1021)" by simp
  then have hi: "?y < 2 ^ (53 + 1021)" using hi' by linarith
  have s: "shift53 ?y = 1021" using lo hi by (rule shift53_eq)
  have "binary64 r = r" using assms(1) by (simp only: is_double_def)
  then have "round53 ?y / grid = r" by (simp only: binary64_nonneg_eq [OF assms(2)])
  then have "round53 ?y = ?y" using grid_pos by (simp add: field_simps)
  then have j: "of_int ?j * 2 ^ 1021 = ?y" by (simp only: round53_def s)
  have p: "(0::real) < 2 ^ 1021" by simp
  have "(2 ^ 53 - 1) * 2 ^ 1021 < of_int ?j * (2::real) ^ 1021" using lo' by (simp only: j)
  then have "2 ^ 53 - 1 < (of_int ?j :: real)"
    using p by (simp only: mult_less_cancel_right_pos)
  moreover have "(2 ^ 53 - 1 :: real) = of_int (2 ^ 53 - 1)" by simp
  ultimately have "of_int (2 ^ 53 - 1) < (of_int ?j :: real)" by (simp only:)
  then have a: "2 ^ 53 - 1 < ?j" by (simp only: of_int_less_iff)
  have "of_int ?j * (2::real) ^ 1021 < 2 ^ 53 * 2 ^ 1021" using hi' by (simp only: j)
  then have "(of_int ?j :: real) < 2 ^ 53"
    using p by (simp only: mult_less_cancel_right_pos)
  moreover have "(2 ^ 53 :: real) = of_int (2 ^ 53)" by simp
  ultimately have "(of_int ?j :: real) < of_int (2 ^ 53)" by (simp only:)
  then have "?j < 2 ^ 53" by (simp only: of_int_less_iff)
  with a show False by simp
qed

lemma binary64_phone_top:
  "binary64 ((1 - 1 / 2 ^ 53) * 99999999999) = 99999999999 - 1 / 2 ^ 16"
proof -
  let ?top = "(1 - 1 / 2 ^ 53) * 99999999999 :: real"
  have topnn: "0 \<le> ?top" by simp
  have "round53 (?top * grid) = of_int (99999999999 * 2 ^ 16 - 1) * 2 ^ 1058"
    by (rule round53_down) (simp_all add: grid_def)
  then have "binary64 ?top = of_int (99999999999 * 2 ^ 16 - 1) * 2 ^ 1058 / grid"
    by (simp only: binary64_nonneg_eq [OF topnn])
  moreover have "of_int (99999999999 * 2 ^ 16 - 1) * 2 ^ 1058 / grid = (99999999999 - 1 / 2 ^ 16 :: real)"
    by (simp add: grid_def)
  ultimately show ?thesis by (simp only:)
qed

lemma binary64_sum_top:
  "binary64 (100000000000 - 1 / 2 ^ 16) = 100000000000 - 1 / 2 ^ 16"
proof -
  have "binary64 (of_int (100000000000 * 2 ^ 16 - 1) * 2 ^ 1058 / grid)
      = of_int (100000000000 * 2 ^ 16 - 1) * 2 ^ 1058 / grid"
    by (rule binary64_fix) simp_all
  moreover have "of_int (100000000000 * 2 ^ 16 - 1) * 2 ^ 1058 / grid
      = (100000000000 - 1 / 2 ^ 16 :: real)" by (simp add: grid_def)
  ultimately show ?thesis by (simp only:)
qed

lemma binary64_phone_product:
  assumes "is_double r" and "0 \<le> r" and "r < 1"
  shows "0 \<le> binary64 (r * 99999999999) \<and>
         binary64 (r * 99999999999) \<le> 99999999999 - 1 / 2 ^ 16"
proof -
  let ?top = "(1 - 1 / 2 ^ 53) * 99999999999 :: real"
  have r: "r \<le> 1 - 1 / 2 ^ 53" using assms by (rule double_below_one)
  have nn: "0 \<le> r * 99999999999" using assms(2) by simp
  have le: "r * 99999999999 \<le> ?top" using r by simp
  have topnn: "0 \<le> ?top" by simp
  have "round53 (?top * grid) = of_int (99999999999 * 2 ^ 16 - 1) * 2 ^ 1058"
    by (rule round53_down) (simp_all add: grid_def)
  then have "binary64 ?top = of_int (99999999999 * 2 ^ 16 - 1) * 2 ^ 1058 / grid"
    by (simp only: binary64_nonneg_eq [OF topnn])
  moreover have "of_int (99999999999 * 2 ^ 16 - 1) * 2 ^ 1058 / grid = (99999999999 - 1 / 2 ^ 16 :: real)"
    by (simp add: grid_def)
  ultimately have "binary64 ?top = 99999999999 - 1 / 2 ^ 16" by (simp only:)
  then have "binary64 (r * 99999999999) \<le> 99999999999 - 1 / 2 ^ 16"
    using binary64_mono [OF nn le] by simp
  then show ?thesis using binary64_nonneg [OF nn] by simp
qed

lemma round53_below_whole:
  assumes "0 \<le> K" and "K \<le> 61" and "y \<le> of_int K * grid - 61 * 2 ^ 1021"
  shows "round53 y < of_int K * grid"
proof -
  have g: "grid = 2 ^ 1074" by (rule grid_def)
  have "(of_int K :: real) \<le> 61" using assms(2) by simp
  then have "of_int K * grid \<le> 61 * grid" using grid_pos by simp
  moreover have "61 * grid - 61 * 2 ^ 1021 < (2::real) ^ (53 + 1027)" by (simp add: grid_def)
  ultimately have h1: "y < 2 ^ (53 + 1027)" using assms(3) by linarith
  have "(61::real) * 2 ^ 1021 > 2 ^ 1027 / 2" by simp
  then have h2: "y < of_int K * 2 ^ 1074 - 2 ^ 1027 / 2"
    using assms(3) unfolding g by linarith
  have "round53 y < of_int K * 2 ^ 1074"
    using h1 _ h2 by (rule round53_less) simp
  then show ?thesis by (simp only: g)
qed

lemma rnum_between:
  assumes "0 \<le> i" and "i < 61" and "of_int i / 61 \<le> r" and "r \<le> (of_int i + 1) / 61 - 1 / 2 ^ 53"
  shows "\<lfloor>binary64 (r * 61)\<rfloor> = i"
proof -
  let ?y = "r * 61 * grid"
  have "(0::real) \<le> of_int i / 61" using assms(1) by simp
  then have r0: "0 \<le> r" using assms(3) by linarith
  have nn: "0 \<le> r * 61" using r0 by simp
  have "of_int i \<le> r * 61" using assms(3) by (simp add: pos_divide_le_eq)
  then have "binary64 (of_int i) \<le> binary64 (r * 61)"
    using assms(1) by (intro binary64_mono) simp_all
  moreover have "binary64 (of_int i) = of_int i"
    using assms(1,2) by (intro binary64_of_int) simp_all
  ultimately have lo: "of_int i \<le> binary64 (r * 61)" by simp
  have g0: "0 \<le> grid" using grid_pos by simp
  have "r * 61 \<le> of_int (i + 1) - 61 / 2 ^ 53" using assms(4) by (simp add: field_simps)
  then have "?y \<le> (of_int (i + 1) - 61 / 2 ^ 53) * grid"
    using g0 by (rule mult_right_mono)
  moreover have "61 / 2 ^ 53 * grid = (61 * 2 ^ 1021 :: real)" by (simp add: grid_def)
  ultimately have y: "?y \<le> of_int (i + 1) * grid - 61 * 2 ^ 1021"
    by (simp only: left_diff_distrib)
  have "round53 ?y < of_int (i + 1) * grid"
    using _ _ y by (rule round53_below_whole) (use assms in simp_all)
  then have "round53 ?y / grid < of_int (i + 1)"
    using grid_pos by (simp add: pos_divide_less_eq)
  then have hi: "binary64 (r * 61) < of_int i + 1"
    using nn by (simp add: binary64_nonneg_eq)
  show ?thesis using lo hi by (simp add: floor_eq_iff)
qed

lemma rnum_range:
  assumes "is_double r" and "0 \<le> r" and "r < 1"
  shows "0 \<le> \<lfloor>binary64 (r * real (length letras))\<rfloor> \<and>
         \<lfloor>binary64 (r * real (length letras))\<rfloor> < int (length letras)"
proof -
  let ?y = "r * 61 * grid"
  have nn: "0 \<le> r * 61" using assms(2) by simp
  have lo: "0 \<le> binary64 (r * 61)" using nn by (rule binary64_nonneg)
  have "r \<le> 1 - 1 / 2 ^ 53" using assms by (rule double_below_one)
  then have "r * 61 \<le> of_int 61 - 61 / 2 ^ 53" by simp
  moreover have g0: "0 \<le> grid" using grid_pos by simp
  ultimately have "?y \<le> (of_int 61 - 61 / 2 ^ 53) * grid"
    by (rule mult_right_mono)
  moreover have "61 / 2 ^ 53 * grid = (61 * 2 ^ 1021 :: real)" by (simp add: grid_def)
  ultimately have y: "?y \<le> of_int 61 * grid - 61 * 2 ^ 1021"
    by (simp only: left_diff_distrib)
  have "round53 ?y < of_int 61 * grid"
    using _ _ y by (rule round53_below_whole) simp_all
  then have "round53 ?y / grid < 61"
    using grid_pos by (simp add: pos_divide_less_eq)
  then have hi: "binary64 (r * 61) < 61"
    using nn by (simp add: binary64_nonneg_eq)
  have "length letras = 61" by (simp add: letras_def)
  then show ?thesis using lo hi by (simp add: floor_less_iff)
qed

section \<open>Properties of the generators\<close>

declare getRandonCode_loop.simps [simp del]

declare decimal.simps [simp del]

lemma length_letras: "length letras = 61"
  by (simp add: letras_def)

lemma substring_one:
  assumes "0 \<le> a" "a < int (length s)"
  shows "substring s a (a + 1) = [s ! nat a]"
proof -
  have "min a (int (length s)) = a" "min (a + 1) (int (length s)) = a + 1"
    using assms by simp_all
  moreover have "max 0 a = a" "max 0 (a + 1) = a + 1" "max a (a + 1) = a + 1" "min a (a + 1) = a"
    using assms by simp_all
  ultimately have "substring s a (a + 1) = take 1 (drop (nat a) s)"
    by (simp add: substring_def Let_def)
  also have "\<dots> = [s ! nat a]"
    using assms by (simp add: take_Suc_conv_app_nth nat_less_iff Cons_nth_drop_Suc [symmetric])
  finally show ?thesis .
qed

lemma loop_result:
  assumes "\<forall>k. is_double (draws k) \<and> 0 \<le> draws k \<and> draws k < 1"
  shows "getRandonCode_loop draws st i tamanho aleatorio =
           (aleatorio @ map (\<lambda>k. letras ! nat \<lfloor>binary64 (draws (st + k) * real (length letras))\<rfloor>)
                           [0..<nat (tamanho - i)],
            st + nat (tamanho - i))"
  using assms
proof (induction draws st i tamanho aleatorio rule: getRandonCode_loop.induct)
  case (1 draws st i tamanho aleatorio)
  show ?case
  proof (cases "i < tamanho")
    case False
    then show ?thesis by (subst getRandonCode_loop.simps) simp
  next
    case True
    let ?rnum = "\<lfloor>binary64 (draws st * real (length letras))\<rfloor>"
    have rn: "0 \<le> ?rnum \<and> ?rnum < int (length letras)"
      using rnum_range [of "draws st"] "1.prems" by simp
    have ih: "getRandonCode_loop draws (Suc st) (i + 1) tamanho (aleatorio @ substring letras ?rnum (?rnum + 1)) =
       ((aleatorio @ substring letras ?rnum (?rnum + 1)) @
          map (\<lambda>k. letras ! nat \<lfloor>binary64 (draws (Suc st + k) * real (length letras))\<rfloor>)
            [0..<nat (tamanho - (i + 1))],
        Suc st + nat (tamanho - (i + 1)))"
      using "1.IH" [OF True, of "(draws st, Suc st)" "draws st" "Suc st" ?rnum] "1.prems"
      by (simp add: Math_random_def)
    have n: "nat (tamanho - i) = Suc (nat (tamanho - (i + 1)))"
      using True by simp
    have m: "map (\<lambda>k. letras ! nat \<lfloor>binary64 (draws (st + k) * real (length letras))\<rfloor>)
               [0..<Suc (nat (tamanho - (i + 1)))]
        = letras ! nat ?rnum #
          map (\<lambda>k. letras ! nat \<lfloor>binary64 (draws (Suc st + k) * real (length letras))\<rfloor>)
            [0..<nat (tamanho - (i + 1))]"
      by (simp add: upt_conv_Cons map_Suc_upt [symmetric] del: upt_Suc)
    show ?thesis
      apply (subst getRandonCode_loop.simps)
      using True ih rn
      apply (simp add: Math_random_def Let_def n m substring_one del: upt_Suc)
      done
  qed
qed

text \<open>
  The loop appends one character of \<open>letras\<close> for each draw it takes, \<open>tamanho\<close> of them
  when \<open>tamanho\<close> is positive and none otherwise.
\<close>

lemma getRandonCode_result:
  assumes "\<forall>k. is_double (draws k) \<and> 0 \<le> draws k \<and> draws k < 1"
  shows "fst (getRandonCode draws st arg) =
           map (\<lambda>k. letras ! nat \<lfloor>binary64 (draws (st + k) * real (length letras))\<rfloor>)
             [0..<nat (case arg of None \<Rightarrow> 6 | Some n \<Rightarrow> n)]"
  using loop_result [OF assms, of st 0 _ "[]"]
  by (simp add: getRandonCode_def Let_def)

text \<open>
  Claim C7. For every draw in [0,1), \<open>getRandomPhone\<close> returns an integer from 1 to
  99999999999, both included. The draw is a double, and the product and the sum are
  rounded as the engine rounds them.
\<close>

theorem getRandomPhone_range:
  assumes "is_double r" and "0 \<le> r" and "r < 1"
  shows "1 \<le> getRandomPhone r \<and> getRandomPhone r \<le> 99999999999"
proof -
  let ?a = "binary64 (r * 99999999999)"
  have a: "0 \<le> ?a" "?a \<le> 99999999999 - 1 / 2 ^ 16"
    using binary64_phone_product [OF assms] by simp_all
  have one: "binary64 1 = 1" using binary64_of_int [of 1] by simp
  have "binary64 (of_int (100000000000 * 2 ^ 16 - 1) * 2 ^ 1058 / grid)
      = of_int (100000000000 * 2 ^ 16 - 1) * 2 ^ 1058 / grid"
    by (rule binary64_fix) simp_all
  moreover have "of_int (100000000000 * 2 ^ 16 - 1) * 2 ^ 1058 / grid
      = (100000000000 - 1 / 2 ^ 16 :: real)" by (simp add: grid_def)
  ultimately have top: "binary64 (100000000000 - 1 / 2 ^ 16) = 100000000000 - 1 / 2 ^ 16"
    by (simp only:)
  have "binary64 1 \<le> binary64 (?a + 1)" using a(1) by (intro binary64_mono) simp_all
  then have lo: "1 \<le> binary64 (?a + 1)" by (simp only: one)
  have "binary64 (?a + 1) \<le> binary64 (100000000000 - 1 / 2 ^ 16)"
    using a by (intro binary64_mono) simp_all
  then have hi: "binary64 (?a + 1) \<le> 100000000000 - 1 / 2 ^ 16" by (simp only: top)
  have "1 \<le> \<lfloor>binary64 (?a + 1)\<rfloor>" using lo by (simp add: le_floor_iff)
  moreover have "binary64 (?a + 1) < 99999999999 + 1" using hi by simp
  then have "\<lfloor>binary64 (?a + 1)\<rfloor> < 99999999999 + 1" by (simp add: floor_less_iff)
  ultimately show ?thesis by (simp add: getRandomPhone_def)
qed

theorem getRandomPhone_range_witness:
  "is_double (1 / 2) \<and> (0::real) \<le> 1 / 2 \<and> (1 / 2 :: real) < 1 \<and>
   1 \<le> getRandomPhone (1 / 2) \<and> getRandomPhone (1 / 2) \<le> 99999999999"
  using getRandomPhone_range [of "1 / 2"] is_double_half by simp

text \<open>
  Both ends of the range are reached, at the draw 0 and at the largest draw. Rounding
  is felt: at the draw \<open>1125899906831365 / 2 ^ 50\<close> the product rounds up to 99999999998,
  and the method returns 99999999999 where exact arithmetic would give 99999999998.
\<close>

lemma getRandomPhone_ends:
  "getRandomPhone 0 = 1 \<and> getRandomPhone (1 - 1 / 2 ^ 53) = 99999999999"
proof -
  have zero: "binary64 0 = 0" using binary64_of_int [of 0] by simp
  have one: "binary64 1 = 1" using binary64_of_int [of 1] by simp
  have a: "getRandomPhone 0 = 1" by (simp add: getRandomPhone_def zero one)
  have "binary64 ((1 - 1 / 2 ^ 53) * 99999999999) = 99999999999 - 1 / 2 ^ 16"
    by (rule binary64_phone_top)
  moreover have "99999999999 - 1 / 2 ^ 16 + 1 = (100000000000 - 1 / 2 ^ 16 :: real)" by simp
  ultimately have "binary64 (binary64 ((1 - 1 / 2 ^ 53) * 99999999999) + 1) = 100000000000 - 1 / 2 ^ 16"
    using binary64_sum_top by (simp only:)
  then have "getRandomPhone (1 - 1 / 2 ^ 53) = \<lfloor>100000000000 - 1 / 2 ^ 16 :: real\<rfloor>"
    by (simp only: getRandomPhone_def)
  also have "\<dots> = 99999999999" by (simp add: floor_eq_iff)
  finally show ?thesis using a by simp
qed

lemma getRandomPhone_rounds_up:
  "is_double (1125899906831365 / 2 ^ 50) \<and>
   getRandomPhone (1125899906831365 / 2 ^ 50) = 99999999999 \<and>
   \<lfloor>(1125899906831365 / 2 ^ 50 :: real) * 99999999999 + 1\<rfloor> = 99999999998"
proof -
  let ?r = "1125899906831365 / 2 ^ 50 :: real"
  have "binary64 (of_int 1125899906831365 * 2 ^ 1024 / grid) = of_int 1125899906831365 * 2 ^ 1024 / grid"
    by (rule binary64_fix) simp_all
  moreover have "of_int 1125899906831365 * 2 ^ 1024 / grid = ?r" by (simp add: grid_def)
  ultimately have "binary64 ?r = ?r" by (simp only:)
  then have d: "is_double ?r" by (simp only: is_double_def)
  have nn: "0 \<le> ?r * 99999999999" by simp
  have "round53 (?r * 99999999999 * grid) = of_int 6553599999868928 * 2 ^ 1058"
    by (rule round53_up) (simp_all add: grid_def)
  then have "binary64 (?r * 99999999999) = of_int 6553599999868928 * 2 ^ 1058 / grid"
    by (simp only: binary64_nonneg_eq [OF nn])
  moreover have "of_int 6553599999868928 * 2 ^ 1058 / grid = (99999999998 :: real)"
    by (simp add: grid_def)
  ultimately have p: "binary64 (?r * 99999999999) = 99999999998" by (simp only:)
  have "binary64 (of_int 99999999999) = of_int 99999999999"
    by (rule binary64_of_int) simp_all
  then have s: "binary64 (99999999998 + 1) = 99999999999" by simp
  have g: "getRandomPhone ?r = 99999999999"
    by (simp only: getRandomPhone_def p s) simp
  have "\<lfloor>?r * 99999999999 + 1\<rfloor> = 99999999998" by (simp add: floor_eq_iff)
  with d g show ?thesis by simp
qed

text \<open>
  Claim C10. For every integer \<open>n \<le> 0\<close>, \<open>getRandonCode(n)\<close> returns the empty string,
  whatever the draws are.
\<close>

theorem getRandonCode_nonpositive:
  assumes "n \<le> 0"
  shows "fst (getRandonCode draws st (Some n)) = ''''"
  using assms by (simp add: getRandonCode_def getRandonCode_loop.simps)

theorem getRandonCode_nonpositive_witness:
  "(- 3 :: int) \<le> 0 \<and> fst (getRandonCode (\<lambda>k. 1 / 2) 0 (Some (- 3))) = ''''"
  using getRandonCode_nonpositive [of "- 3" "\<lambda>k. 1 / 2" 0] by simp

text \<open>
  Claim C6. For every integer \<open>n \<ge> 0\<close> and every sequence of draws in [0,1),
  \<open>getRandonCode(n)\<close> returns a string of exactly \<open>n\<close> characters, each of them a
  character of the literal \<open>letras\<close>; called with no argument it returns exactly 6
  characters. The draws are doubles, and each product is rounded as the engine rounds
  it: the index stays below 61 because the largest draw is \<open>1 - 1 / 2 ^ 53\<close>.
\<close>

theorem getRandonCode_length:
  assumes "\<forall>k. is_double (draws k) \<and> 0 \<le> draws k \<and> draws k < 1" and "0 \<le> n"
  shows "length (fst (getRandonCode draws st (Some n))) = nat n \<and>
         set (fst (getRandonCode draws st (Some n))) \<subseteq> set letras \<and>
         length (fst (getRandonCode draws st None)) = 6 \<and>
         set (fst (getRandonCode draws st None)) \<subseteq> set letras"
proof -
  have idx: "letras ! nat \<lfloor>binary64 (draws j * real (length letras))\<rfloor> \<in> set letras" for j
  proof -
    have "0 \<le> \<lfloor>binary64 (draws j * real (length letras))\<rfloor> \<and>
          \<lfloor>binary64 (draws j * real (length letras))\<rfloor> < int (length letras)"
      using rnum_range [of "draws j"] assms(1) by simp
    then have "nat \<lfloor>binary64 (draws j * real (length letras))\<rfloor> < length letras"
      by (simp add: nat_less_iff)
    then show ?thesis by (rule nth_mem)
  qed
  have sub: "set (fst (getRandonCode draws st arg)) \<subseteq> set letras" for arg
    using idx by (auto simp: getRandonCode_result [OF assms(1)])
  have "length (fst (getRandonCode draws st (Some n))) = nat n"
    by (simp add: getRandonCode_result [OF assms(1)])
  moreover have "length (fst (getRandonCode draws st None)) = 6"
    by (simp add: getRandonCode_result [OF assms(1)])
  ultimately show ?thesis using sub by simp
qed

theorem getRandonCode_length_witness:
  "(\<forall>k. is_double (1 / 2) \<and> (0::real) \<le> 1 / 2 \<and> (1 / 2 :: real) < 1) \<and> (0::int) \<le> 3 \<and>
   length (fst (getRandonCode (\<lambda>k. 1 / 2) 0 (Some 3))) = nat 3 \<and>
   set (fst (getRandonCode (\<lambda>k. 1 / 2) 0 (Some 3))) \<subseteq> set letras \<and>
   length (fst (getRandonCode (\<lambda>k. 1 / 2) 0 None)) = 6 \<and>
   set (fst (getRandonCode (\<lambda>k. 1 / 2) 0 None)) \<subseteq> set letras"
  using getRandonCode_length [of "\<lambda>k. 1 / 2" 3 0] is_double_half by simp

text \<open>
  Rounding is felt here too: the draw \<open>885954025056491 / 2 ^ 52\<close> lies below \<open>12 / 61\<close>,
  its product by 61 rounds up to 12, and the loop takes the character at index 12.
\<close>

lemma rnum_rounds_up:
  "is_double (885954025056491 / 2 ^ 52) \<and>
   \<lfloor>binary64 (885954025056491 / 2 ^ 52 * real (length letras))\<rfloor> = 12 \<and>
   \<lfloor>(885954025056491 / 2 ^ 52 :: real) * 61\<rfloor> = 11 \<and>
   fst (getRandonCode (\<lambda>k. 885954025056491 / 2 ^ 52) 0 (Some 1)) = ''C''"
proof -
  let ?r = "885954025056491 / 2 ^ 52 :: real"
  have "binary64 (of_int 885954025056491 * 2 ^ 1022 / grid) = of_int 885954025056491 * 2 ^ 1022 / grid"
    by (rule binary64_fix) simp_all
  moreover have "of_int 885954025056491 * 2 ^ 1022 / grid = ?r" by (simp add: grid_def)
  ultimately have "binary64 ?r = ?r" by (simp only:)
  then have d: "is_double ?r" by (simp only: is_double_def)
  have nn: "0 \<le> ?r * 61" by simp
  have "round53 (?r * 61 * grid) = of_int 6755399441055744 * 2 ^ 1025"
    by (rule round53_up) (simp_all add: grid_def)
  then have "binary64 (?r * 61) = of_int 6755399441055744 * 2 ^ 1025 / grid"
    by (simp only: binary64_nonneg_eq [OF nn])
  moreover have "of_int 6755399441055744 * 2 ^ 1025 / grid = (12 :: real)"
    by (simp add: grid_def)
  ultimately have p: "binary64 (?r * 61) = 12" by (simp only:)
  then have i: "\<lfloor>binary64 (?r * real (length letras))\<rfloor> = 12"
    by (simp add: length_letras)
  have e: "\<lfloor>?r * 61\<rfloor> = 11" by (simp add: floor_eq_iff)
  have h: "\<forall>k. is_double ((\<lambda>k. ?r) k) \<and> 0 \<le> (\<lambda>k. ?r) k \<and> (\<lambda>k. ?r) k < 1"
    using d by simp
  have "fst (getRandonCode (\<lambda>k. ?r) 0 (Some 1)) =
      map (\<lambda>k. letras ! nat \<lfloor>binary64 (?r * real (length letras))\<rfloor>)
        [0..<nat (case Some 1 of None \<Rightarrow> 6 | Some n \<Rightarrow> n)]"
    by (rule getRandonCode_result [OF h])
  then have "fst (getRandonCode (\<lambda>k. ?r) 0 (Some 1)) =
      map (\<lambda>k. letras ! nat 12) [0..<nat (case Some 1 of None \<Rightarrow> 6 | Some n \<Rightarrow> n)]"
    by (simp only: i)
  then have c: "fst (getRandonCode (\<lambda>k. ?r) 0 (Some 1)) = ''C''"
    by (simp add: letras_def)
  from d i e c show ?thesis by simp
qed

lemma getRandonPassword_length:
  "length (getRandonPassword engine r) = min 7 (length (Number_toString36 engine r))"
  by (simp add: getRandonPassword_def slice_def Let_def)

text \<open>
  A rendering with 7 digits or more after the point gives its last 7 digits, as the
  draw \<open>1 / 2 ^ 14\<close> does.
\<close>

lemma digit36_char:
  "d < 36 \<Longrightarrow> digit36 d \<in> set ''0123456789abcdefghijklmnopqrstuvwxyz''"
  unfolding digit36_def by (rule nth_mem) simp

lemma fraction_digits36_chars:
  assumes "0 \<le> f" and "f < 1"
  shows "set (fraction_digits36 places f) \<subseteq> set ''0123456789abcdefghijklmnopqrstuvwxyz''"
  using assms
proof (induction places arbitrary: f)
  case 0
  then show ?case by simp
next
  case (Suc places)
  let ?d = "\<lfloor>f * 36\<rfloor>"
  have d: "0 \<le> ?d" "?d < 36"
    using Suc.prems by (simp_all add: floor_less_iff)
  then have "nat ?d < 36" by linarith
  then have c: "digit36 (nat ?d) \<in> set ''0123456789abcdefghijklmnopqrstuvwxyz''"
    by (rule digit36_char)
  have "0 \<le> f * 36 - of_int ?d" "f * 36 - of_int ?d < 1"
    by linarith+
  then have "set (fraction_digits36 places (f * 36 - of_int ?d)) \<subseteq> set ''0123456789abcdefghijklmnopqrstuvwxyz''"
    by (rule Suc.IH)
  with c show ?case
    by (simp only: fraction_digits36.simps Let_def split: if_splits) auto
qed

lemma slice_last7:
  assumes "7 \<le> length ds"
  shows "slice (''0.'' @ ds) (- 7) = drop (length ds - 7) ds"
proof -
  have "nat (int (length ds) + 2 - 7) = 2 + (length ds - 7)"
    using assms by linarith
  then show ?thesis
    using assms by (simp add: slice_def Let_def)
qed

lemma getRandonPassword_long:
  assumes "Number_toString36 engine r = ''0.'' @ ds" and "7 \<le> length ds"
    and "set ds \<subseteq> set ''0123456789abcdefghijklmnopqrstuvwxyz''"
  shows "length (getRandonPassword engine r) = 7 \<and>
         set (getRandonPassword engine r) \<subseteq> set ''0123456789abcdefghijklmnopqrstuvwxyz''"
proof -
  have p: "getRandonPassword engine r = drop (length ds - 7) ds"
    using slice_last7 [OF assms(2)] by (simp add: getRandonPassword_def assms(1))
  have "set (drop (length ds - 7) ds) \<subseteq> set ds" by (rule set_drop_subset)
  then have "set (getRandonPassword engine r) \<subseteq> set ''0123456789abcdefghijklmnopqrstuvwxyz''"
    unfolding p using assms(3) by (rule subset_trans)
  moreover have "length (getRandonPassword engine r) = 7"
    using assms(2) by (simp add: p)
  ultimately show ?thesis by simp
qed

lemma is_double_example: "is_double (1 / 2 ^ 14)"
proof -
  have "binary64 (of_int 1 * 2 ^ 1060 / grid) = of_int 1 * 2 ^ 1060 / grid"
    by (rule binary64_fix) simp_all
  moreover have "of_int 1 * 2 ^ 1060 / grid = (1 / 2 ^ 14 :: real)" by (simp add: grid_def)
  ultimately have "binary64 (1 / 2 ^ 14) = 1 / 2 ^ 14" by (simp only:)
  then show ?thesis by (simp only: is_double_def)
qed

lemma getRandonPassword_example: "getRandonPassword engine (1 / 2 ^ 14) = ''002uik9''"
proof -
  have "Number_toString36 engine (1 / 2 ^ 14) = ''0.'' @ fraction_digits36 10 (1 / 2 ^ 14)"
    using is_double_example by (simp add: Number_toString36_def numeral_eq_Suc)
  also have "\<dots> = ''0.002uik9''"
    by (simp add: digit36_def numeral_eq_Suc)
  finally show ?thesis by (simp add: getRandonPassword_def slice_def)
qed

text \<open>
  Claim C4. For every draw in [0,1), \<open>getRandonPassword\<close> returns a string of exactly 7
  characters, each of them in \<open>[0-9a-z]\<close>. The method does not do so: \<open>slice(-7)\<close> takes
  the last 7 characters of the rendering of the draw and neither fills a shorter one up
  nor draws again. The draw 1/2 is rendered \<open>0.i\<close> and the draw 0 is rendered \<open>0\<close>;
  the method returns these renderings whole, 3 characters with the point among them,
  and 1 character.
\<close>

theorem getRandonPassword_short:
  "getRandonPassword engine (1 / 2) = ''0.i'' \<and> getRandonPassword engine 0 = ''0''"
  using is_double_half
  by (simp add: getRandonPassword_def Number_toString36_def slice_def digit36_def numeral_eq_Suc)

text \<open>
  The literal \<open>letras\<close> read against the 62 characters \<open>0-9A-Za-z\<close>: the specification
  reads it as these characters with X in the place of Y; the source has T in the place
  of Y and has no j.
\<close>

lemma claimed_letras_reading:
  "claimed_letras = map (\<lambda>c. if c = CHR ''Y'' then CHR ''X'' else c) standard_alphabet"
  by (simp add: claimed_letras_def standard_alphabet_def)

lemma letras_reading:
  "letras = map (\<lambda>c. if c = CHR ''Y'' then CHR ''T'' else c)
              (filter (\<lambda>c. c \<noteq> CHR ''j'') standard_alphabet)"
  by (simp add: letras_def standard_alphabet_def)

lemma letras_counts:
  "count_list letras (CHR ''T'') = 2 \<and> CHR ''Y'' \<notin> set letras \<and> CHR ''j'' \<notin> set letras"
  by (simp add: letras_def)

text \<open>
  Claim C5, as stated: the literal is the alphabet \<open>0-9A-Za-z\<close> with Y left out and X
  written twice. It is not: the literal has 61 characters, not 62, and X occurs in it
  once.
\<close>

theorem letras_not_as_claimed:
  "letras \<noteq> claimed_letras \<and> length letras = 61 \<and> length claimed_letras = 62 \<and>
   count_list letras (CHR ''X'') = 1 \<and> count_list claimed_letras (CHR ''X'') = 2"
  by (simp add: letras_def claimed_letras_def)

text \<open>
  Claim C5, amended. The literal is the alphabet \<open>0-9A-Za-z\<close> with j left out and T
  written in the place of Y: 61 characters, T twice, neither Y nor j. With or without
  the argument, the character at each position of the code is the character of the
  literal at the index \<open>\<lfloor>r * 61\<rfloor>\<close>, the product rounded to a double, where \<open>r\<close> is
  the draw of that position alone. A draw from \<open>i / 61\<close> to
  \<open>(i + 1) / 61 - 1 / 2 ^ 53\<close> gives the index \<open>i\<close>: up to one step of rounding at
  its upper end, each of the 61 indices has an interval of draws of the same length.
\<close>

theorem letras_layout:
  assumes "\<forall>k. is_double (draws k) \<and> 0 \<le> draws k \<and> draws k < 1"
    and "j < nat (case arg of None \<Rightarrow> 6 | Some n \<Rightarrow> n)"
    and "0 \<le> i" and "i < 61"
  shows "letras = map (\<lambda>c. if c = CHR ''Y'' then CHR ''T'' else c)
                    (filter (\<lambda>c. c \<noteq> CHR ''j'') standard_alphabet) \<and>
         length letras = 61 \<and> count_list letras (CHR ''T'') = 2 \<and>
         CHR ''Y'' \<notin> set letras \<and> CHR ''j'' \<notin> set letras \<and>
         fst (getRandonCode draws st arg) ! j
           = letras ! nat \<lfloor>binary64 (draws (st + j) * 61)\<rfloor> \<and>
         (of_int i / 61 \<le> draws (st + j) \<and> draws (st + j) \<le> (of_int i + 1) / 61 - 1 / 2 ^ 53
            \<longrightarrow> \<lfloor>binary64 (draws (st + j) * 61)\<rfloor> = i \<and>
                fst (getRandonCode draws st arg) ! j = letras ! nat i)"
proof -
  have a: "fst (getRandonCode draws st arg) ! j = letras ! nat \<lfloor>binary64 (draws (st + j) * 61)\<rfloor>"
    using assms(2) by (simp add: getRandonCode_result [OF assms(1)] length_letras)
  have b: "\<lfloor>binary64 (draws (st + j) * 61)\<rfloor> = i"
    if "of_int i / 61 \<le> draws (st + j)" "draws (st + j) \<le> (of_int i + 1) / 61 - 1 / 2 ^ 53"
    using assms(3,4) that by (rule rnum_between)
  show ?thesis
    using a b letras_reading length_letras letras_counts by simp
qed

theorem letras_layout_witness:
  "(\<forall>k. is_double (1 / 2) \<and> (0::real) \<le> 1 / 2 \<and> (1 / 2 :: real) < 1) \<and>
   (1::nat) < nat (case None of None \<Rightarrow> 6 | Some n \<Rightarrow> n) \<and> (0::int) \<le> 30 \<and> (30::int) < 61 \<and>
   (of_int 30 / 61 :: real) \<le> 1 / 2 \<and> (1 / 2 :: real) \<le> (of_int 30 + 1) / 61 - 1 / 2 ^ 53 \<and>
   \<lfloor>binary64 (1 / 2 * 61)\<rfloor> = 30 \<and>
   fst (getRandonCode (\<lambda>k. 1 / 2) 0 None) ! 1 = CHR ''U''"
proof -
  have h: "\<forall>k. is_double ((\<lambda>k. 1 / 2) k) \<and> 0 \<le> (\<lambda>k. 1 / 2 :: real) k \<and> (\<lambda>k. 1 / 2 :: real) k < 1"
    using is_double_half by simp
  have j: "(1::nat) < nat (case None of None \<Rightarrow> 6 | Some n \<Rightarrow> n)" by simp
  have r: "(of_int 30 / 61 :: real) \<le> 1 / 2 \<and> (1 / 2 :: real) \<le> (of_int 30 + 1) / 61 - 1 / 2 ^ 53"
    by simp
  have "\<lfloor>binary64 (1 / 2 * 61)\<rfloor> = 30 \<and>
        fst (getRandonCode (\<lambda>k. 1 / 2) 0 None) ! 1 = letras ! nat 30"
    using letras_layout [OF h j, of 30 0] r by simp
  moreover have "letras ! nat 30 = CHR ''U''" by (simp add: letras_def)
  ultimately show ?thesis using h j r by simp
qed

section \<open>Properties of PollingAssertion\<close>





lemma PollingAssertion_success:
  assumes "query elapsed = Some found" and "predicate found"
  shows "PollingAssertion query predicate description timeout interval elapsed = Some (Success found, elapsed)"
  using assms by (subst PollingAssertion.simps) simp

section \<open>Properties of the screenshot name\<close>

lemma digit10_is_digit:
  assumes "d < 10"
  shows "is_digit (digit10 d)"
proof -
  from assms have "d = 0 \<or> d = 1 \<or> d = 2 \<or> d = 3 \<or> d = 4 \<or> d = 5 \<or> d = 6 \<or> d = 7 \<or> d = 8 \<or> d = 9"
    by arith
  then show ?thesis
    by (elim disjE) (simp_all add: digit10_def is_digit_def)
qed

lemma decimal_digits: "list_all is_digit (decimal n)"
proof (induction n rule: decimal.induct)
  case (1 n)
  show ?case
  proof (cases "n < 10")
    case True
    then show ?thesis by (subst decimal.simps) (simp add: digit10_is_digit)
  next
    case False
    then show ?thesis
      using "1.IH" by (subst decimal.simps) (simp add: digit10_is_digit)
  qed
qed

lemma length_decimal_1: "n < 10 \<Longrightarrow> length (decimal n) = 1"
  by (subst decimal.simps) simp

lemma length_decimal_2: "10 \<le> n \<Longrightarrow> n < 100 \<Longrightarrow> length (decimal n) = 2"
  by (subst decimal.simps) (simp add: length_decimal_1)

lemma length_decimal_3: "100 \<le> n \<Longrightarrow> n < 1000 \<Longrightarrow> length (decimal n) = 3"
  by (subst decimal.simps) (simp add: length_decimal_2)

lemma length_decimal_4: "1000 \<le> n \<Longrightarrow> n < 10000 \<Longrightarrow> length (decimal n) = 4"
  by (subst decimal.simps) (simp add: length_decimal_3)

lemma nines:
  "list_all is_digit s \<Longrightarrow>
   map (\<lambda>c. if is_digit c then CHR ''9'' else c) s = replicate (length s) (CHR ''9'')"
  by (induction s) simp_all

lemma two_digits:
  assumes "0 \<le> n" and "n \<le> 99"
  shows "map (\<lambda>c. if is_digit c then CHR ''9'' else c) (padStart (String_of n) 2 (CHR ''0'')) = ''99''"
proof (cases "n < 10")
  case True
  then have "length (decimal (nat n)) = 1" using assms by (simp add: length_decimal_1)
  then have "padStart (String_of n) 2 (CHR ''0'') = CHR ''0'' # decimal (nat n)"
    using assms by (simp add: padStart_def String_of_def)
  moreover have "list_all is_digit (CHR ''0'' # decimal (nat n))"
    by (simp add: decimal_digits) (simp add: is_digit_def)
  ultimately show ?thesis
    using nines [of "CHR ''0'' # decimal (nat n)"] \<open>length (decimal (nat n)) = 1\<close> by simp
next
  case False
  then have len: "length (decimal (nat n)) = 2" using assms by (simp add: length_decimal_2)
  then have "padStart (String_of n) 2 (CHR ''0'') = decimal (nat n)"
    using assms by (simp add: padStart_def String_of_def)
  then show ?thesis
    using nines [OF decimal_digits, of "nat n"] len by (simp add: numeral_2_eq_2)
qed

lemma four_digits:
  assumes "1000 \<le> y" and "y \<le> 9999"
  shows "map (\<lambda>c. if is_digit c then CHR ''9'' else c) (String_of y) = ''9999''"
proof -
  have "length (decimal (nat y)) = 4" using assms by (simp add: length_decimal_4)
  then show ?thesis
    using nines [OF decimal_digits, of "nat y"] assms
    by (simp add: String_of_def numeral_eq_Suc)
qed

lemma is_digit_separators: "\<not> is_digit (CHR ''-'')" "\<not> is_digit (CHR ''_'')"
  by (simp_all add: is_digit_def)



lemma is_digit_plain: "is_digit c \<Longrightarrow> c \<noteq> CHR '':'' \<and> c \<noteq> CHR '' ''"
  by (auto simp: is_digit_def)

lemma decimal_plain: "list_all (\<lambda>c. c \<noteq> CHR '':'' \<and> c \<noteq> CHR '' '') (decimal m)"
  using decimal_digits [of m] is_digit_plain by (simp add: list_all_iff)

lemma String_of_plain: "list_all (\<lambda>c. c \<noteq> CHR '':'' \<and> c \<noteq> CHR '' '') (String_of n)"
  by (simp add: String_of_def decimal_plain)

lemma padStart_plain:
  "list_all (\<lambda>c. c \<noteq> CHR '':'' \<and> c \<noteq> CHR '' '') (padStart (String_of n) k (CHR ''0''))"
  using String_of_plain [of n] by (auto simp: padStart_def list_all_iff)

lemma screenshot_plain: "list_all (\<lambda>c. c \<noteq> CHR '':'' \<and> c \<noteq> CHR '' '') (screenshot t)"
  by (simp add: screenshot_def Let_def String_of_plain padStart_plain)

text \<open>
  Claim C8, as stated: for every clock reading the name has the shape
  \<^verbatim>\<open>YYYY-MM-DD_HH-mm-ss\<close>. The year is written as it is, without padding or cutting,
  so the shape holds for the years of four digits only: in the year 10000 the name is
  \<^verbatim>\<open>10000-01-01_00-00-00\<close>.
\<close>

theorem screenshot_year_10000:
  "valid_Date \<lparr>getDate = 1, getMonth = 0, getFullYear = 10000, getHours = 0, getMinutes = 0, getSeconds = 0\<rparr> \<and>
   screenshot \<lparr>getDate = 1, getMonth = 0, getFullYear = 10000, getHours = 0, getMinutes = 0, getSeconds = 0\<rparr>
     = ''10000-01-01_00-00-00'' \<and>
   \<not> timestamp_shape
       (screenshot \<lparr>getDate = 1, getMonth = 0, getFullYear = 10000, getHours = 0, getMinutes = 0, getSeconds = 0\<rparr>)"
  by (simp add: valid_Date_def screenshot_def padStart_def String_of_def decimal.simps digit10_def
      timestamp_shape_def is_digit_def)

text \<open>
  Claim C8, amended. For every clock reading with a year from 1000 to 9999 the name
  passed to the screenshot command has the shape \<^verbatim>\<open>YYYY-MM-DD_HH-mm-ss\<close>, month, day,
  hour, minute and second padded with zeros to two digits, and holds neither a colon nor
  a space. (The name of any clock reading holds neither: \<open>screenshot_plain\<close>.)
\<close>

theorem screenshot_shape:
  assumes "valid_Date t" and "1000 \<le> getFullYear t" and "getFullYear t \<le> 9999"
  shows "timestamp_shape (screenshot t) \<and>
         CHR '':'' \<notin> set (screenshot t) \<and> CHR '' '' \<notin> set (screenshot t)"
proof -
  have "timestamp_shape (screenshot t)"
    using assms
    by (simp add: timestamp_shape_def screenshot_def Let_def valid_Date_def
        two_digits four_digits is_digit_separators)
  moreover have "CHR '':'' \<notin> set (screenshot t)" "CHR '' '' \<notin> set (screenshot t)"
    using screenshot_plain [of t] by (auto simp: list_all_iff)
  ultimately show ?thesis by simp
qed

theorem screenshot_shape_witness:
  "valid_Date \<lparr>getDate = 3, getMonth = 10, getFullYear = 2026, getHours = 9, getMinutes = 5, getSeconds = 0\<rparr> \<and>
   screenshot \<lparr>getDate = 3, getMonth = 10, getFullYear = 2026, getHours = 9, getMinutes = 5, getSeconds = 0\<rparr>
     = ''2026-11-03_09-05-00'' \<and>
   timestamp_shape ''2026-11-03_09-05-00'' \<and>
   CHR '':'' \<notin> set ''2026-11-03_09-05-00'' \<and> CHR '' '' \<notin> set ''2026-11-03_09-05-00''"
proof -
  let ?t = "\<lparr>getDate = 3, getMonth = 10, getFullYear = 2026, getHours = 9, getMinutes = 5, getSeconds = 0\<rparr>"
  have v: "valid_Date ?t" by (simp add: valid_Date_def)
  have s: "screenshot ?t = ''2026-11-03_09-05-00''"
    by (simp add: screenshot_def padStart_def String_of_def decimal.simps digit10_def)
  show ?thesis
    using screenshot_shape [OF v] v s by simp
qed

section \<open>Properties of validateDetailBook\<close>

lemma chain_Inl: "chain (cmds, Inl e) f = (cmds, Inl e)"
  by (simp add: chain_def)

lemma chain_Inr: "chain (cmds, Inr subject) f = (cmds @ fst (f subject), snd (f subject))"
  by (simp add: chain_def split: prod.splits)

lemma cy_contains_absent:
  assumes "\<not> on_page pg pat" and "pat \<noteq> Text []"
  shows "cy_contains pg pat timeout = ([Contains pat timeout], Inl (Not_found pat timeout))"
proof -
  have "filter (\<lambda>e. matches pat (content e)) pg = []"
    using assms(1) by (simp add: on_page_def list_ex_iff filter_empty_conv)
  then show ?thesis using assms(2) by (simp add: cy_contains_def)
qed

lemma cy_contains_subject:
  assumes "snd (cy_contains pg pat timeout) = Inr subject"
  shows "length subject = 1"
  using assms by (auto simp: cy_contains_def split: if_splits list.splits)

lemma cy_contains_fst: "fst (cy_contains pg pat timeout) = [Contains pat timeout]"
  by (simp add: cy_contains_def)

lemma visible_step:
  "chain (cy_contains pg pat timeout) should_be_visible =
     (case snd (cy_contains pg pat timeout) of
        Inl e \<Rightarrow> ([Contains pat timeout], Inl e)
      | Inr subject \<Rightarrow>
          ([Contains pat timeout, Should_be_visible],
           if list_ex visible subject then Inr subject else Inl (Not_visible subject)))"
  by (cases "cy_contains pg pat timeout")
     (auto simp: chain_def should_be_visible_def cy_contains_def split: sum.splits)

text \<open>
  Claim C3. On every page where neither the ISBN label nor a number of 10 to 13 digits
  is found, and where the title and the text Author are visible,
  \<open>validateDetailBook\<close> fails with an error: the query for the label finds nothing
  and ends the run.
\<close>

theorem validateDetailBook_absent_label_fails:
  assumes "\<not> on_page pg ISBN_label" and "\<not> on_page pg Digits_10_13"
    and "passes (chain (cy_contains pg (Text title) (Some 10000)) should_be_visible)"
    and "passes (chain (cy_contains pg (Text ''Author'') None) should_be_visible)"
  shows "\<not> passes (validateDetailBook pg title) \<and>
         snd (validateDetailBook pg title) = Inl (Not_found ISBN_label None)"
proof -
  obtain c1 s1 where r1: "chain (cy_contains pg (Text title) (Some 10000)) should_be_visible = (c1, Inr s1)"
    using assms(3) by (cases "chain (cy_contains pg (Text title) (Some 10000)) should_be_visible")
      (auto simp: passes_def split: sum.splits)
  obtain c2 s2 where r2: "chain (cy_contains pg (Text ''Author'') None) should_be_visible = (c2, Inr s2)"
    using assms(4) by (cases "chain (cy_contains pg (Text ''Author'') None) should_be_visible")
      (auto simp: passes_def split: sum.splits)
  have r3: "cy_contains pg ISBN_label None = ([Contains ISBN_label None], Inl (Not_found ISBN_label None))"
    using assms(1) by (simp add: cy_contains_absent)
  have "snd (validateDetailBook pg title) = Inl (Not_found ISBN_label None)"
    by (simp add: validateDetailBook_def r1 r2 r3 chain_Inr chain_Inl)
  then show ?thesis by (simp add: passes_def)
qed


theorem validateDetailBook_absent_label_fails_witness:
  "\<not> on_page bare_page ISBN_label \<and> \<not> on_page bare_page Digits_10_13 \<and>
   passes (chain (cy_contains bare_page (Text ''Git Pocket Guide'') (Some 10000)) should_be_visible) \<and>
   passes (chain (cy_contains bare_page (Text ''Author'') None) should_be_visible) \<and>
   \<not> passes (validateDetailBook bare_page ''Git Pocket Guide'') \<and>
   snd (validateDetailBook bare_page ''Git Pocket Guide'') = Inl (Not_found ISBN_label None)"
proof -
  have h1: "\<not> on_page bare_page ISBN_label"
    by (simp add: bare_page_def on_page_def)
  have h2: "\<not> on_page bare_page Digits_10_13"
    by (simp add: bare_page_def on_page_def digits_here_def is_digit_def)
  have h3: "passes (chain (cy_contains bare_page (Text ''Git Pocket Guide'') (Some 10000)) should_be_visible)"
    by (simp add: bare_page_def passes_def chain_def cy_contains_def should_be_visible_def)
  have h4: "passes (chain (cy_contains bare_page (Text ''Author'') None) should_be_visible)"
    by (simp add: bare_page_def passes_def chain_def cy_contains_def should_be_visible_def)
  show ?thesis
    using validateDetailBook_absent_label_fails [OF h1 h2 h3 h4] h1 h2 h3 h4 by simp
qed

text \<open>Whatever else the page shows, a run on a page without the label does not pass.\<close>

lemma label_absent_never_passes:
  assumes "\<not> on_page pg ISBN_label"
  shows "\<not> passes (validateDetailBook pg title)"
proof -
  let ?v1 = "chain (cy_contains pg (Text title) (Some 10000)) should_be_visible"
  let ?v2 = "chain (cy_contains pg (Text ''Author'') None) should_be_visible"
  have q: "cy_contains pg ISBN_label None = ([Contains ISBN_label None], Inl (Not_found ISBN_label None))"
    using assms by (simp add: cy_contains_absent)
  obtain c1 r1 where v1: "?v1 = (c1, r1)" by (cases ?v1)
  obtain c2 r2 where v2: "?v2 = (c2, r2)" by (cases ?v2)
  show ?thesis
    by (cases r1; cases r2)
      (simp_all add: validateDetailBook_def v1 v2 q chain_Inl chain_Inr passes_def)
qed

text \<open>
  The commands of a run are always the first few of one list of seven: the assertion
  on the title with its limit of 10 seconds, the assertion on Author, the one query for
  the label, and the assertion on the element it found. The callback receives one
  element whenever it runs, so its other branch, the query for the digits, is in no
  run.
\<close>

lemma isbn_callback_empty:
  "isbn_callback pg [] = chain (cy_contains pg Digits_10_13 None) should_be_visible"
  by (simp add: isbn_callback_def)

lemma isbn_callback_found:
  assumes "length el = 1"
  shows "isbn_callback pg el =
           ([Wrap, Should_be_visible],
            if list_ex visible el then Inr el else Inl (Not_visible el))"
  using assms by (simp add: isbn_callback_def cy_wrap_def chain_Inr should_be_visible_def)

lemma visible_step_cases:
  "(\<exists>e. chain (cy_contains pg pat timeout) should_be_visible = ([Contains pat timeout], Inl e)) \<or>
   (\<exists>e. chain (cy_contains pg pat timeout) should_be_visible =
          ([Contains pat timeout, Should_be_visible], Inl e)) \<or>
   (\<exists>subject. chain (cy_contains pg pat timeout) should_be_visible =
          ([Contains pat timeout, Should_be_visible], Inr subject))"
  by (cases "snd (cy_contains pg pat timeout)") (simp_all add: visible_step)

lemma validateDetailBook_commands:
  "\<exists>k. fst (validateDetailBook pg title) =
        take k [Contains (Text title) (Some 10000), Should_be_visible,
                Contains (Text ''Author'') None, Should_be_visible,
                Contains ISBN_label None, Wrap, Should_be_visible]"
proof -
  let ?all = "[Contains (Text title) (Some 10000), Should_be_visible,
               Contains (Text ''Author'') None, Should_be_visible,
               Contains ISBN_label None, Wrap, Should_be_visible]"
  let ?v1 = "chain (cy_contains pg (Text title) (Some 10000)) should_be_visible"
  let ?v2 = "chain (cy_contains pg (Text ''Author'') None) should_be_visible"
  let ?q = "cy_contains pg ISBN_label None"
  have q: "fst ?q = [Contains ISBN_label None]" by (rule cy_contains_fst)
  from visible_step_cases [of pg "Text title" "Some 10000"]
  consider (a) e where "?v1 = ([Contains (Text title) (Some 10000)], Inl e)"
    | (b) e where "?v1 = ([Contains (Text title) (Some 10000), Should_be_visible], Inl e)"
    | (c) s1 where "?v1 = ([Contains (Text title) (Some 10000), Should_be_visible], Inr s1)"
    by blast
  then show ?thesis
  proof cases
    case a
    then have "fst (validateDetailBook pg title) = take 1 ?all"
      by (simp add: validateDetailBook_def chain_Inl)
    then show ?thesis by blast
  next
    case b
    then have "fst (validateDetailBook pg title) = take 2 ?all"
      by (simp add: validateDetailBook_def chain_Inl)
    then show ?thesis by blast
  next
    case c
    note v1 = c
    from visible_step_cases [of pg "Text ''Author''" None]
    consider (a2) e where "?v2 = ([Contains (Text ''Author'') None], Inl e)"
      | (b2) e where "?v2 = ([Contains (Text ''Author'') None, Should_be_visible], Inl e)"
      | (c2) s2 where "?v2 = ([Contains (Text ''Author'') None, Should_be_visible], Inr s2)"
      by blast
    then show ?thesis
    proof cases
      case a2
      then have "fst (validateDetailBook pg title) = take 3 ?all"
        by (simp add: validateDetailBook_def v1 chain_Inr chain_Inl)
      then show ?thesis by blast
    next
      case b2
      then have "fst (validateDetailBook pg title) = take 4 ?all"
        by (simp add: validateDetailBook_def v1 chain_Inr chain_Inl)
      then show ?thesis by blast
    next
      case c2
      note v2 = c2
      show ?thesis
      proof (cases "snd ?q")
        case (Inl e)
        then have "?q = ([Contains ISBN_label None], Inl e)"
          using q by (cases ?q) simp
        then have "fst (validateDetailBook pg title) = take 5 ?all"
          by (simp add: validateDetailBook_def v1 v2 chain_Inr chain_Inl)
        then show ?thesis by blast
      next
        case (Inr el)
        then have qq: "?q = ([Contains ISBN_label None], Inr el)"
          using q by (cases ?q) simp
        have "length el = 1" using Inr by (rule cy_contains_subject)
        then have "fst (validateDetailBook pg title) = take 7 ?all"
          by (simp add: validateDetailBook_def v1 v2 qq chain_Inr chain_Inl isbn_callback_found)
        then show ?thesis by blast
      qed
    qed
  qed
qed

lemma fallback_never_queried:
  "Contains Digits_10_13 timeout \<notin> set (fst (validateDetailBook pg title))"
proof -
  obtain k where "fst (validateDetailBook pg title) =
        take k [Contains (Text title) (Some 10000), Should_be_visible,
                Contains (Text ''Author'') None, Should_be_visible,
                Contains ISBN_label None, Wrap, Should_be_visible]"
    using validateDetailBook_commands by blast
  then have "set (fst (validateDetailBook pg title)) \<subseteq>
      set [Contains (Text title) (Some 10000), Should_be_visible,
                Contains (Text ''Author'') None, Should_be_visible,
                Contains ISBN_label None, Wrap, Should_be_visible]"
    by (simp only: set_take_subset)
  then show ?thesis by auto
qed

lemma validateDetailBook_labelled_page:
  "validateDetailBook labelled_page ''Git Pocket Guide'' =
     ([Contains (Text ''Git Pocket Guide'') (Some 10000), Should_be_visible,
       Contains (Text ''Author'') None, Should_be_visible,
       Contains ISBN_label None, Wrap, Should_be_visible],
      Inr [\<lparr>content = ''ISBN : 9781449325862'', visible = True\<rparr>])"
  by (simp add: labelled_page_def validateDetailBook_def chain_def
      cy_contains_def should_be_visible_def isbn_callback_def cy_wrap_def is_word_def)

text \<open>
  Claim C1. On every page with no ISBN label and with an element that holds a number of
  10 to 13 digits, the title and Author visible, \<open>validateDetailBook\<close> passes by its
  fallback branch. The method does not do so. On the page of the book Harry Potter,
  which has no label and shows a number of 12 digits, the query for the label finds
  nothing and fails the run; the callback with the fallback is not run.
\<close>

theorem validateDetailBook_harry_potter:
  "\<not> on_page harry_potter_page ISBN_label \<and>
   list_ex (\<lambda>e. matches Digits_10_13 (content e) \<and> visible e) harry_potter_page \<and>
   passes (chain (cy_contains harry_potter_page (Text ''Harry Potter'') (Some 10000)) should_be_visible) \<and>
   passes (chain (cy_contains harry_potter_page (Text ''Author'') None) should_be_visible) \<and>
   \<not> passes (validateDetailBook harry_potter_page ''Harry Potter'') \<and>
   snd (validateDetailBook harry_potter_page ''Harry Potter'') = Inl (Not_found ISBN_label None)"
  by (simp add: harry_potter_page_def on_page_def passes_def validateDetailBook_def chain_def
      cy_contains_def should_be_visible_def digits_here_def is_digit_def)

text \<open>
  Claim C2. \<open>validateDetailBook\<close> asserts the title visible within 10 seconds, then
  Author visible, then queries the label once, and the number of elements found selects
  one of two assertions: the labelled element visible when there is one, the digits
  visible when there is none. The method does not do the last: on the page of the Git
  Pocket Guide, with no label and a number of 13 digits, the run ends with the query and
  neither assertion follows it, although the callback would pass there if it were handed
  the empty result.
\<close>

theorem validateDetailBook_git_pocket_guide:
  "validateDetailBook git_pocket_guide_page ''Git Pocket Guide'' =
     ([Contains (Text ''Git Pocket Guide'') (Some 10000), Should_be_visible,
       Contains (Text ''Author'') None, Should_be_visible,
       Contains ISBN_label None],
      Inl (Not_found ISBN_label None)) \<and>
   isbn_callback git_pocket_guide_page [] =
     ([Contains Digits_10_13 None, Should_be_visible],
      Inr [\<lparr>content = ''9781449325862'', visible = True\<rparr>])"
  by (simp add: git_pocket_guide_page_def validateDetailBook_def chain_def
      cy_contains_def should_be_visible_def isbn_callback_def digits_here_def is_digit_def)

end
